theory Spec2Isabelle
  imports Complex_Main
begin

section \<open>JavaScript primitives used by the schedule code\<close>

text \<open>
  The schedule code computes with JavaScript numbers and with \<open>HH:MM\<close> strings. Every
  number that takes part in clock arithmetic is either an integer or \<open>NaN\<close>, so such
  numbers are modelled by \<open>jsnum\<close>. Arithmetic with \<open>NaN\<close> yields \<open>NaN\<close> and every
  comparison with \<open>NaN\<close> is false, as in JavaScript.
\<close>

datatype jsnum = NaN | Finite int

fun js_add :: "jsnum \<Rightarrow> jsnum \<Rightarrow> jsnum" where
  "js_add (Finite a) (Finite b) = Finite (a + b)"
| "js_add _ _ = NaN"

fun js_sub :: "jsnum \<Rightarrow> jsnum \<Rightarrow> jsnum" where
  "js_sub (Finite a) (Finite b) = Finite (a - b)"
| "js_sub _ _ = NaN"

fun js_mul :: "jsnum \<Rightarrow> jsnum \<Rightarrow> jsnum" where
  "js_mul (Finite a) (Finite b) = Finite (a * b)"
| "js_mul _ _ = NaN"

fun js_neg :: "jsnum \<Rightarrow> jsnum" where
  "js_neg (Finite a) = Finite (- a)"
| "js_neg NaN = NaN"

fun js_lt :: "jsnum \<Rightarrow> jsnum \<Rightarrow> bool" where
  "js_lt (Finite a) (Finite b) = (a < b)"
| "js_lt _ _ = False"

fun js_le :: "jsnum \<Rightarrow> jsnum \<Rightarrow> bool" where
  "js_le (Finite a) (Finite b) = (a \<le> b)"
| "js_le _ _ = False"

fun js_gt :: "jsnum \<Rightarrow> jsnum \<Rightarrow> bool" where
  "js_gt (Finite a) (Finite b) = (a > b)"
| "js_gt _ _ = False"

fun js_ge :: "jsnum \<Rightarrow> jsnum \<Rightarrow> bool" where
  "js_ge (Finite a) (Finite b) = (a \<ge> b)"
| "js_ge _ _ = False"

text \<open>\<open>a !== b\<close> on numbers: \<open>NaN\<close> differs from everything, itself included.\<close>

fun js_neq :: "jsnum \<Rightarrow> jsnum \<Rightarrow> bool" where
  "js_neq (Finite a) (Finite b) = (a \<noteq> b)"
| "js_neq _ _ = True"

fun Math_max :: "jsnum \<Rightarrow> jsnum \<Rightarrow> jsnum" where
  "Math_max (Finite a) (Finite b) = Finite (max a b)"
| "Math_max _ _ = NaN"

fun Math_min :: "jsnum \<Rightarrow> jsnum \<Rightarrow> jsnum" where
  "Math_min (Finite a) (Finite b) = Finite (min a b)"
| "Math_min _ _ = NaN"

text \<open>
  \<open>Math.round\<close>: the nearest integer, ties towards plus infinity. The argument is given
  as an exact quotient. JavaScript computes the argument in double precision, and the two
  can disagree where the exact argument lies within rounding distance of a half: for 23
  of 40 minutes the double product \<open>(23 / 40) * 100\<close> lies just below 57.5 and rounds to
  57, the exact 57.5 to 58. A quotient \<open>m / 5\<close> of an integer, as in \<open>snapToGrid\<close>, has a
  fractional part of 0, 0.2, 0.4, 0.6 or 0.8 and keeps its distance from a half in double
  precision for minute counts of any realistic size. The properties proved of the
  analytics below concern a total of 0, where no quotient is rounded.
\<close>

definition Math_round :: "rat \<Rightarrow> int" where
  "Math_round r = \<lfloor>r + 1 / 2\<rfloor>"

text \<open>The remainder operator \<open>%\<close> of JavaScript truncates: the result has the sign of
  the dividend.\<close>

definition js_rem :: "int \<Rightarrow> int \<Rightarrow> int" where
  "js_rem a b = sgn a * (\<bar>a\<bar> mod \<bar>b\<bar>)"

subsection \<open>Strings\<close>

definition digit_char :: "nat \<Rightarrow> char" where
  "digit_char d = char_of (48 + d)"

fun dec_digits :: "nat \<Rightarrow> string" where
  "dec_digits n = (if n < 10 then [digit_char n] else dec_digits (n div 10) @ [digit_char (n mod 10)])"

declare dec_digits.simps [simp del]

text \<open>\<open>String(n)\<close> for an integer \<open>n\<close>, and for \<open>NaN\<close>.\<close>

definition String_int :: "int \<Rightarrow> string" where
  "String_int i = (if i < 0 then CHR ''-'' # dec_digits (nat (- i)) else dec_digits (nat i))"

fun String_num :: "jsnum \<Rightarrow> string" where
  "String_num NaN = ''NaN''"
| "String_num (Finite i) = String_int i"

text \<open>\<open>s.padStart(2, '0')\<close>.\<close>

definition padStart2 :: "string \<Rightarrow> string" where
  "padStart2 s = replicate (2 - length s) (CHR ''0'') @ s"

text \<open>\<open>s.split(':')\<close>: the pieces between the colons; never the empty array.\<close>

fun split_colon :: "string \<Rightarrow> string list" where
  "split_colon [] = [[]]"
| "split_colon (c # cs) =
     (if c = CHR '':'' then [] # split_colon cs
      else (case split_colon cs of p # ps \<Rightarrow> (c # p) # ps | [] \<Rightarrow> [[c]]))"

text \<open>
  \<open>Number(s)\<close> on strings. JavaScript strips white space at both ends, reads the empty
  string as \<open>0\<close> and a signed run of decimal digits as that integer. The model is exact
  for runs whose value is below \<open>2^53\<close>; from there on JavaScript rounds to the nearest
  double, and to \<open>Infinity\<close> from about 309 digits, where the model keeps the integer.
  Literals with a decimal point, an exponent, a radix prefix, or \<open>Infinity\<close> denote
  numbers in JavaScript too, and JavaScript also strips white space beyond ASCII; such
  strings lie outside the integer fragment modelled here, where they read as \<open>NaN\<close>.
  The absence of overlap after repair and the lanes of the layout are therefore stated
  for well-formed \<open>HH:MM\<close> strings, two digits on either side of the colon, where the
  model is exact. The contract of \<open>timeToMinutes\<close> for strings without a colon depends
  only on the number of pieces that \<open>split\<close> returns. Where a property is stated for
  strings that parse to a \<open>Finite\<close> value in this model, that value is JavaScript's for
  digit runs below \<open>2^53\<close>. The concrete scenarios use strings of letters or short digit
  runs.
\<close>

definition is_ws :: "char \<Rightarrow> bool" where
  "is_ws c = ((of_char c :: nat) \<in> {9, 10, 11, 12, 13, 32})"

definition trim :: "string \<Rightarrow> string" where
  "trim s = rev (dropWhile is_ws (rev (dropWhile is_ws s)))"

definition is_digit :: "char \<Rightarrow> bool" where
  "is_digit c = (48 \<le> (of_char c :: nat) \<and> (of_char c :: nat) \<le> 57)"

definition digit_val :: "char \<Rightarrow> int" where
  "digit_val c = int (of_char c) - 48"

definition digits_val :: "string \<Rightarrow> int" where
  "digits_val ds = foldl (\<lambda>acc c. acc * 10 + digit_val c) 0 ds"

definition unsigned_dec :: "string \<Rightarrow> jsnum" where
  "unsigned_dec ds = (if ds \<noteq> [] \<and> list_all is_digit ds then Finite (digits_val ds) else NaN)"

definition Number :: "string \<Rightarrow> jsnum" where
  "Number s =
     (case trim s of
        [] \<Rightarrow> Finite 0
      | c # cs \<Rightarrow>
          if c = CHR ''-'' then js_neg (unsigned_dec cs)
          else if c = CHR ''+'' then unsigned_dec cs
          else unsigned_dec (c # cs))"

section \<open>Time utilities\<close>

text \<open>
  \<open>timeToMinutes\<close> destructures the first two pieces of \<open>time.split(':').map(Number)\<close>.
  With a single piece \<open>minutes\<close> is \<open>undefined\<close> and the sum is \<open>NaN\<close>; further pieces
  are ignored. The service and the timeline component carry identical copies.
\<close>

definition timeToMinutes :: "string \<Rightarrow> jsnum" where
  "timeToMinutes time =
     (case map Number (split_colon time) of
        hours # minutes # _ \<Rightarrow> js_add (js_mul hours (Finite 60)) minutes
      | _ \<Rightarrow> NaN)"

fun minutesToTime :: "jsnum \<Rightarrow> string" where
  "minutesToTime NaN = padStart2 (String_num NaN) @ '':'' @ padStart2 (String_num NaN)"
| "minutesToTime (Finite minutes) =
     (let hours = js_rem (minutes div 60) 24;
          mins = js_rem minutes 60
      in padStart2 (String_int hours) @ '':'' @ padStart2 (String_int mins))"

declare minutesToTime.simps [simp del]

text \<open>A well-formed time of day: two digits, a colon, two digits, hour below 24 and
  minute below 60.\<close>

definition is_HHMM :: "string \<Rightarrow> bool" where
  "is_HHMM t =
     (case t of
        [h1, h2, c, m1, m2] \<Rightarrow>
          is_digit h1 \<and> is_digit h2 \<and> c = CHR '':'' \<and> is_digit m1 \<and> is_digit m2
          \<and> digit_val h1 * 10 + digit_val h2 < 24 \<and> digit_val m1 * 10 + digit_val m2 < 60
      | _ \<Rightarrow> False)"

text \<open>Two decimal digits of a number below 100; the shape \<open>padStart\<close> gives to
  hours and minutes. Used to state what \<open>minutesToTime\<close> prints.\<close>

definition two_digits :: "nat \<Rightarrow> string" where
  "two_digits n = [digit_char (n div 10), digit_char (n mod 10)]"

section \<open>Data model of the schedule service\<close>

datatype block_type = Work | Exercise | Sleep | Meal | Break | Personal | Commute | Wellness

datatype priority_level = Low | Medium | High

text \<open>\<open>ScheduleBlock\<close>: times are kept as strings, the duration as a number of minutes.
  Durations are modelled as integers.\<close>

record ScheduleBlock =
  id' :: string
  title :: string
  startTime :: string
  endTime :: string
  duration :: int
  type' :: block_type
  description :: "string option"
  priority :: "priority_level option"
  flexible :: "bool option"

record WorkLifeBalance =
  workHours :: rat
  personalHours :: rat
  sleepHours :: rat
  exerciseMinutes :: int

record DailySchedule =
  blocks :: "ScheduleBlock list"
  totalHours :: int
  workLifeBalance :: WorkLifeBalance
  suggestions :: "string list"
  optimizationScore :: int

section \<open>Balance, suggestions and score\<close>

record totals =
  work :: int
  personal :: int
  sleep :: int
  exercise :: int

text \<open>The body of the \<open>forEach\<close> in \<open>calculateWorkLifeBalance\<close>: a \<open>switch\<close> on the
  block type; meal, break and commute blocks fall through without effect.\<close>

definition add_to_totals :: "totals \<Rightarrow> ScheduleBlock \<Rightarrow> totals" where
  "add_to_totals t block =
     (case type' block of
        Work \<Rightarrow> t\<lparr>work := work t + duration block\<rparr>
      | Personal \<Rightarrow> t\<lparr>personal := personal t + duration block\<rparr>
      | Wellness \<Rightarrow> t\<lparr>personal := personal t + duration block\<rparr>
      | Sleep \<Rightarrow> t\<lparr>sleep := sleep t + duration block\<rparr>
      | Exercise \<Rightarrow> t\<lparr>exercise := exercise t + duration block\<rparr>
      | _ \<Rightarrow> t)"

definition sum_totals :: "ScheduleBlock list \<Rightarrow> totals" where
  "sum_totals bs = foldl add_to_totals \<lparr>work = 0, personal = 0, sleep = 0, exercise = 0\<rparr> bs"

definition calculateWorkLifeBalance :: "ScheduleBlock list \<Rightarrow> WorkLifeBalance" where
  "calculateWorkLifeBalance bs =
     (let t = sum_totals bs
      in \<lparr>workHours = of_int (work t) / 60,
          personalHours = of_int (personal t) / 60,
          sleepHours = of_int (sleep t) / 60,
          exerciseMinutes = exercise t\<rparr>)"

text \<open>Each \<open>if\<close> of \<open>generateSmartSuggestions\<close> pushes at most one string; the result is
  \<open>suggestions.slice(0, 4)\<close>. The parameter \<open>originalInput\<close> is not read.\<close>

definition generateSmartSuggestions :: "ScheduleBlock list \<Rightarrow> string \<Rightarrow> string list" where
  "generateSmartSuggestions bs originalInput =
     (let t = calculateWorkLifeBalance bs;
          s1 = (if workHours t > 9
                then [''Consider reducing work hours to improve work-life balance''] else []);
          s2 = s1 @ (if exerciseMinutes t < 30
                then [''Add at least 30 minutes of daily exercise for better health''] else []);
          s3 = s2 @ (if sleepHours t < 7
                then [''Increase sleep duration to 7-9 hours for optimal recovery''] else []);
          s4 = s3 @ (if personalHours t < 2
                then [''Schedule more personal time for relaxation and hobbies''] else []);
          workBlocks = filter (\<lambda>b. type' b = Work) bs;
          hasLongWorkSession = list_ex (\<lambda>b. duration b > 240) workBlocks;
          s5 = s4 @ (if hasLongWorkSession
                then [''Add short breaks during long work sessions to maintain productivity'']
                else []);
          s6 = (if length s5 = 0
                then s5 @ [''Your schedule looks well-balanced!'',
                           ''Consider adding variety to keep things interesting'']
                else s5)
      in take 4 s6)"

text \<open>\<open>validateTimeGaps\<close>: the loop over consecutive pairs returns \<open>false\<close> at the first
  gap that is negative or longer than 180 minutes.\<close>

fun validateTimeGaps :: "ScheduleBlock list \<Rightarrow> bool" where
  "validateTimeGaps (b # b' # rest) =
     (let currentEnd = timeToMinutes (endTime b);
          nextStart = timeToMinutes (startTime b');
          gap = js_sub nextStart currentEnd
      in if js_lt gap (Finite 0) \<or> js_gt gap (Finite 180) then False
         else validateTimeGaps (b' # rest))"
| "validateTimeGaps _ = True"

text \<open>
  \<open>calculateOptimizationScore\<close> starts from 100 and subtracts penalties in three commented
  sections of the source (work-life balance, health factors, schedule structure with the
  final gap check); each section is given here as a function from the score so far to the
  score after it.
\<close>

definition balance_penalties :: "WorkLifeBalance \<Rightarrow> int \<Rightarrow> int" where
  "balance_penalties t score =
     (let score1 = (if workHours t > 9 then score - 15
                    else if workHours t < 6 then score - 10 else score);
          score2 = (if personalHours t < 2 then score1 - 15 else score1)
      in score2)"

definition health_penalties :: "WorkLifeBalance \<Rightarrow> int \<Rightarrow> int" where
  "health_penalties t score =
     (let score1 = (if sleepHours t < 7 \<or> sleepHours t > 9 then score - 20 else score);
          score2 = (if exerciseMinutes t < 30 then score1 - 20 else score1)
      in score2)"

definition structure_penalties :: "ScheduleBlock list \<Rightarrow> WorkLifeBalance \<Rightarrow> int \<Rightarrow> int" where
  "structure_penalties bs t score =
     (let hasMeals = list_ex (\<lambda>b. type' b = Meal) bs;
          score1 = (if \<not> hasMeals then score - 10 else score);
          hasBreaks = list_ex (\<lambda>b. type' b = Break) bs;
          score2 = (if \<not> hasBreaks \<and> workHours t > 6 then score1 - 10 else score1);
          hasWellness = list_ex (\<lambda>b. type' b = Wellness) bs;
          score3 = (if \<not> hasWellness then score2 - 5 else score2);
          hasReasonableGaps = validateTimeGaps bs;
          score4 = (if \<not> hasReasonableGaps then score3 - 5 else score3)
      in score4)"

definition calculateOptimizationScore :: "ScheduleBlock list \<Rightarrow> int" where
  "calculateOptimizationScore bs =
     (let t = calculateWorkLifeBalance bs;
          score = structure_penalties bs t (health_penalties t (balance_penalties t 100))
      in max 0 (min 100 score))"

section \<open>The block repairer\<close>

text \<open>
  \<open>Array.prototype.sort\<close> with a comparison function: a stable sort. An insertion sort
  that moves an element past its right neighbour exactly when the comparison result is
  greater than zero yields that order whenever the comparison is consistent; a \<open>NaN\<close>
  result counts as zero. With an inconsistent comparison (some key is \<open>NaN\<close>) the order
  JavaScript produces is implementation-defined and can differ from the one computed
  here; the general theorems below assume keys that parse. One case is the same for the
  sorts in use: an array in which no element compares as smaller than the element in
  front of it (the result is positive, zero or \<open>NaN\<close>) is a single ascending run, which
  an insertion sort and a run-detecting merge sort both leave as it is, as does
  \<open>sort_by\<close>. The scenario with an unparseable start time is of that kind.
\<close>

fun insert_by :: "('a \<Rightarrow> 'a \<Rightarrow> jsnum) \<Rightarrow> 'a \<Rightarrow> 'a list \<Rightarrow> 'a list" where
  "insert_by cmp x [] = [x]"
| "insert_by cmp x (y # ys) =
     (if js_gt (cmp x y) (Finite 0) then y # insert_by cmp x ys else x # y # ys)"

definition sort_by :: "('a \<Rightarrow> 'a \<Rightarrow> jsnum) \<Rightarrow> 'a list \<Rightarrow> 'a list" where
  "sort_by cmp xs = foldr (insert_by cmp) xs []"

text \<open>The comparison of \<open>validateAndFixSchedule\<close>: the difference of the start times in
  minutes, computed as \<open>timeToMinutes\<close> computes them.\<close>

definition compareStart :: "ScheduleBlock \<Rightarrow> ScheduleBlock \<Rightarrow> jsnum" where
  "compareStart a b = js_sub (timeToMinutes (startTime a)) (timeToMinutes (startTime b))"

text \<open>The \<open>forEach\<close> over the sorted blocks; \<open>index\<close> counts from 0 and \<open>lastEndTime\<close>
  starts as \<open>00:00\<close>. The result is the list \<open>fixedBlocks\<close>.\<close>

fun fixBlocks :: "nat \<Rightarrow> string \<Rightarrow> ScheduleBlock list \<Rightarrow> ScheduleBlock list" where
  "fixBlocks index lastEndTime [] = []"
| "fixBlocks index lastEndTime (block # rest) =
     (let blockStartMinutes = timeToMinutes (startTime block);
          lastEndMinutes = timeToMinutes lastEndTime;
          adjustedStartTime =
            (if js_lt blockStartMinutes lastEndMinutes then lastEndTime else startTime block);
          adjustedStartMinutes = timeToMinutes adjustedStartTime;
          duration1 = max (duration block) 15;
          endTime1 = minutesToTime (js_add adjustedStartMinutes (Finite duration1));
          fixedBlock = block\<lparr>id' := String_int (int index + 1),
                             startTime := adjustedStartTime,
                             endTime := endTime1,
                             duration := duration1\<rparr>
      in fixedBlock # fixBlocks (index + 1) endTime1 rest)"

definition validateAndFixSchedule :: "DailySchedule \<Rightarrow> string \<Rightarrow> DailySchedule" where
  "validateAndFixSchedule schedule originalInput =
     (let sortedBlocks = sort_by compareStart (blocks schedule);
          fixedBlocks = fixBlocks 0 ''00:00'' sortedBlocks
      in \<lparr>blocks = fixedBlocks,
          totalHours = 24,
          workLifeBalance = calculateWorkLifeBalance fixedBlocks,
          suggestions = generateSmartSuggestions fixedBlocks originalInput,
          optimizationScore = calculateOptimizationScore fixedBlocks\<rparr>)"

section \<open>Time analytics\<close>

text \<open>
  The percentages of \<open>generateTimeAnalytics\<close>, the guarded one of the breakdown and the
  three of \<open>workLifeBalance\<close>, are quotients of minute counts, all computed by
  \<open>Math.round((minutes / totalMinutes) * 100)\<close>. A quotient with a non-zero divisor is
  modelled exactly, as a rational (JavaScript rounds it to a double, see \<open>Math_round\<close>);
  IEEE division by zero gives \<open>NaN\<close> for \<open>0 / 0\<close> and an infinity of the sign of the
  dividend otherwise. Multiplying by the positive constant
  100 and \<open>Math.round\<close> keep \<open>NaN\<close> and the infinities as they are. Minute counts are
  integers; their sums are exact in JavaScript as long as they stay below \<open>2^53\<close> in
  absolute value.
\<close>

datatype jsquot = QNaN | PosInfinity | NegInfinity | Quot rat









record AnalyticsItem =
  label :: string
  value' :: rat
  minutes :: int
  percentage :: jsquot
  color :: string





section \<open>The timeline component: grid and layout\<close>

definition SNAP_MINUTES :: int where "SNAP_MINUTES = 5"
definition HOUR_HEIGHT :: int where "HOUR_HEIGHT = 60"
definition MIN_EVENT_HEIGHT :: int where "MIN_EVENT_HEIGHT = 20"

text \<open>\<open>snapToGrid\<close>: \<open>Math.round(minutes / SNAP_MINUTES) * SNAP_MINUTES\<close>.\<close>

fun snapToGrid :: "jsnum \<Rightarrow> jsnum" where
  "snapToGrid NaN = NaN"
| "snapToGrid (Finite m) =
     Finite (Math_round (of_int m / of_int SNAP_MINUTES) * SNAP_MINUTES)"

declare snapToGrid.simps(2) [simp del]

text \<open>
  \<open>LayoutEvent\<close>. The fields \<open>top\<close> and \<open>height\<close> are pixel positions, modelled as exact
  quotients; JavaScript rounds every operation to a double, so that its values can differ
  from these in the last digits (9.000000000000002 for 9). No property below reads them.
  The fields \<open>lane\<close> and \<open>laneCount\<close> are the ones the layout loop assigns.
\<close>

record LayoutEvent =
  event_id :: string
  event_title :: string
  start :: jsnum
  end' :: jsnum
  event_type :: block_type
  originalBlock :: ScheduleBlock
  lane :: nat
  laneCount :: nat
  top' :: jsquot
  height :: jsquot

definition toLayoutEvent :: "ScheduleBlock \<Rightarrow> LayoutEvent" where
  "toLayoutEvent block =
     (let start0 = timeToMinutes (startTime block);
          end0 = timeToMinutes (endTime block);
          end1 = (if js_lt end0 start0 then js_add end0 (Finite 1440) else end0);
          end2 = (if js_lt (js_sub end1 start0) (Finite 5) then js_add start0 (Finite 5) else end1)
      in \<lparr>event_id = id' block,
          event_title = title block,
          start = start0,
          end' = end2,
          event_type = type' block,
          originalBlock = block,
          lane = 0,
          laneCount = 1,
          top' = (case start0 of NaN \<Rightarrow> QNaN
                  | Finite s \<Rightarrow> Quot (of_int s / 1440 * 24 * of_int HOUR_HEIGHT)),
          height = (case js_sub end2 start0 of NaN \<Rightarrow> QNaN
                  | Finite d \<Rightarrow> Quot (max (of_int d / 60 * of_int HOUR_HEIGHT)
                                          (of_int MIN_EVENT_HEIGHT)))\<rparr>)"

text \<open>The comparison of \<open>layoutEvents.sort\<close>: by start, then by length.\<close>

definition compareEvents :: "LayoutEvent \<Rightarrow> LayoutEvent \<Rightarrow> jsnum" where
  "compareEvents a b =
     (if js_neq (start a) (start b) then js_sub (start a) (start b)
      else js_sub (js_sub (end' a) (start a)) (js_sub (end' b) (start b)))"

definition overlaps :: "LayoutEvent \<Rightarrow> LayoutEvent \<Rightarrow> bool" where
  "overlaps event groupEvent =
     (\<not> (js_le (end' event) (start groupEvent) \<or> js_ge (start event) (end' groupEvent)))"

text \<open>
  The layout loop works on shared objects: the sorted array and the groups hold the same
  events, and assigning \<open>event.lane\<close> or \<open>event.laneCount\<close> is seen through both. The
  model names an event by its index in the sorted array; a group is a list of indices, and
  the two assigned fields live in stores indexed the same way, initially \<open>lane = 0\<close> and
  \<open>laneCount = 1\<close> as \<open>toLayoutEvent\<close> sets them.
\<close>

record layout_state =
  lanes :: "nat \<Rightarrow> nat"
  groups :: "nat list list"

text \<open>The inner \<open>for\<close> over the groups stops at the first group with an overlapping
  event; the result is the position of that group.\<close>

fun find_group :: "LayoutEvent list \<Rightarrow> nat \<Rightarrow> nat list list \<Rightarrow> nat \<Rightarrow> nat option" where
  "find_group evs i [] k = None"
| "find_group evs i (g # gs) k =
     (if list_ex (\<lambda>j. overlaps (evs ! i) (evs ! j)) g then Some k
      else find_group evs i gs (k + 1))"

text \<open>\<open>while (usedLanes.has(lane)) lane++\<close>.\<close>

function first_free_lane :: "nat list \<Rightarrow> nat \<Rightarrow> nat" where
  "first_free_lane usedLanes l =
     (if l \<in> set usedLanes then first_free_lane usedLanes (l + 1) else l)"
  by pat_completeness auto
termination
proof (relation "measure (\<lambda>(usedLanes, l). Suc (Max (set usedLanes)) - l)")
  show "wf (measure (\<lambda>(usedLanes, l). Suc (Max (set usedLanes)) - l))" by simp
next
  fix usedLanes :: "nat list" and l :: nat
  assume "l \<in> set usedLanes"
  then have "l \<le> Max (set usedLanes)" by simp
  then show "((usedLanes, l + 1), (usedLanes, l))
        \<in> measure (\<lambda>(usedLanes, l). Suc (Max (set usedLanes)) - l)" by simp
qed

declare first_free_lane.simps [simp del]

definition place_event :: "LayoutEvent list \<Rightarrow> layout_state \<Rightarrow> nat \<Rightarrow> layout_state" where
  "place_event evs st i =
     (case find_group evs i (groups st) 0 of
        Some k \<Rightarrow>
          (let grp = groups st ! k;
               usedLanes = map (lanes st) grp;
               l = first_free_lane usedLanes 0
           in \<lparr>lanes = (lanes st)(i := l), groups = (groups st)[k := grp @ [i]]\<rparr>)
      | None \<Rightarrow> \<lparr>lanes = (lanes st)(i := 0), groups = groups st @ [[i]]\<rparr>)"

definition assign_lanes :: "LayoutEvent list \<Rightarrow> layout_state" where
  "assign_lanes evs = foldl (place_event evs) \<lparr>lanes = (\<lambda>_. 0), groups = []\<rparr> [0..<length evs]"

text \<open>The last loop: every event of a group receives \<open>Math.max(...lanes) + 1\<close> of its
  group. Groups are never empty.\<close>

definition set_lane_count :: "(nat \<Rightarrow> nat) \<Rightarrow> (nat \<Rightarrow> nat) \<Rightarrow> nat list \<Rightarrow> (nat \<Rightarrow> nat)" where
  "set_lane_count ls counts grp =
     (let maxLane = Max (set (map ls grp));
          c = maxLane + 1
      in foldl (\<lambda>cs i. cs(i := c)) counts grp)"

definition lane_counts :: "layout_state \<Rightarrow> (nat \<Rightarrow> nat)" where
  "lane_counts st = foldl (set_lane_count (lanes st)) (\<lambda>_. 1) (groups st)"

definition sortedEvents :: "ScheduleBlock list \<Rightarrow> LayoutEvent list" where
  "sortedEvents events = sort_by compareEvents (map toLayoutEvent events)"

definition layoutGroups :: "ScheduleBlock list \<Rightarrow> nat list list" where
  "layoutGroups events = groups (assign_lanes (sortedEvents events))"

definition layoutEvents :: "ScheduleBlock list \<Rightarrow> LayoutEvent list" where
  "layoutEvents events =
     (if length events = 0 then []
      else
        let evs = sortedEvents events;
            st = assign_lanes evs;
            counts = lane_counts st
        in map (\<lambda>i. (evs ! i)\<lparr>lane := lanes st i, laneCount := counts i\<rparr>) [0..<length evs])"

section \<open>The timeline component: editing\<close>

text \<open>
  \<open>Partial<ScheduleBlock>\<close>: each field is present or absent. \<open>handleBlockUpdate\<close> of the
  planner replaces the block with the given id by \<open>{...block, ...updates}\<close>.
\<close>

record BlockUpdates =
  upd_id :: "string option"
  upd_title :: "string option"
  upd_startTime :: "string option"
  upd_endTime :: "string option"
  upd_duration :: "int option"
  upd_type :: "block_type option"
  upd_description :: "string option option"
  upd_priority :: "priority_level option option"
  upd_flexible :: "bool option option"

definition no_updates :: BlockUpdates where
  "no_updates = \<lparr>upd_id = None, upd_title = None, upd_startTime = None, upd_endTime = None,
     upd_duration = None, upd_type = None, upd_description = None, upd_priority = None,
     upd_flexible = None\<rparr>"

definition or_else :: "'a option \<Rightarrow> 'a \<Rightarrow> 'a" where
  "or_else u old = (case u of Some v \<Rightarrow> v | None \<Rightarrow> old)"

definition apply_updates :: "ScheduleBlock \<Rightarrow> BlockUpdates \<Rightarrow> ScheduleBlock" where
  "apply_updates block u =
     \<lparr>id' = or_else (upd_id u) (id' block),
      title = or_else (upd_title u) (title block),
      startTime = or_else (upd_startTime u) (startTime block),
      endTime = or_else (upd_endTime u) (endTime block),
      duration = or_else (upd_duration u) (duration block),
      type' = or_else (upd_type u) (type' block),
      description = or_else (upd_description u) (description block),
      priority = or_else (upd_priority u) (priority block),
      flexible = or_else (upd_flexible u) (flexible block)\<rparr>"

definition handleBlockUpdate :: "ScheduleBlock list \<Rightarrow> string \<Rightarrow> BlockUpdates \<Rightarrow> ScheduleBlock list" where
  "handleBlockUpdate bs blockId updates =
     map (\<lambda>block. if id' block = blockId then apply_updates block updates else block) bs"

text \<open>What a handler asks of its parent: nothing, \<open>onBlockUpdate\<close>, \<open>onBlockDelete\<close>, or
  the start of title editing.\<close>

datatype editor_effect =
    NoEffect
  | BlockUpdate string BlockUpdates
  | BlockDelete string
  | StartEditing string

text \<open>A keyboard event as the browser delivers it: \<open>key\<close> names the key that was pressed
  (\<open>ArrowUp\<close> for the up arrow, with or without modifiers) and \<open>shiftKey\<close> tells whether
  Shift was held.\<close>

record KeyboardEvent =
  key :: string
  shiftKey :: bool

definition handleKeyDown :: "ScheduleBlock list \<Rightarrow> KeyboardEvent \<Rightarrow> string \<Rightarrow> editor_effect" where
  "handleKeyDown bs event blockId =
     (case find (\<lambda>b. id' b = blockId) bs of
        None \<Rightarrow> NoEffect
      | Some block \<Rightarrow>
          let currentStartTime = timeToMinutes (startTime block);
              currentEndTime = timeToMinutes (endTime block);
              duration0 = js_sub currentEndTime currentStartTime
          in if key event = ''ArrowUp'' then
               (let newStartTime =
                      Math_max (Finite 0) (snapToGrid (js_sub currentStartTime (Finite 15)))
                in BlockUpdate blockId
                     (no_updates\<lparr>upd_startTime := Some (minutesToTime newStartTime),
                        upd_endTime := Some (minutesToTime (js_add newStartTime duration0))\<rparr>))
             else if key event = ''ArrowDown'' then
               (let newStartTime =
                      Math_min (js_sub (Finite 1440) duration0)
                        (snapToGrid (js_add currentStartTime (Finite 15)))
                in BlockUpdate blockId
                     (no_updates\<lparr>upd_startTime := Some (minutesToTime newStartTime),
                        upd_endTime := Some (minutesToTime (js_add newStartTime duration0))\<rparr>))
             else if key event = ''Shift+ArrowUp'' then
               (let newEndTime =
                      Math_max (js_add currentStartTime (Finite 15))
                        (snapToGrid (js_sub currentEndTime (Finite 15)))
                in BlockUpdate blockId
                     (no_updates\<lparr>upd_endTime := Some (minutesToTime newEndTime)\<rparr>))
             else if key event = ''Shift+ArrowDown'' then
               (let newEndTime =
                      Math_min (Finite 1440) (snapToGrid (js_add currentEndTime (Finite 15)))
                in BlockUpdate blockId
                     (no_updates\<lparr>upd_endTime := Some (minutesToTime newEndTime)\<rparr>))
             else if key event = ''Enter'' \<or> key event = '' '' then StartEditing blockId
             else if key event = ''Delete'' \<or> key event = ''Backspace'' then BlockDelete blockId
             else NoEffect)"

text \<open>
  A mouse event: the button and the vertical pointer position in whole pixels. With
  \<open>HOUR_HEIGHT = 60\<close> the expression \<open>(deltaY / HOUR_HEIGHT) * 60\<close> is \<open>deltaY\<close> itself;
  it is written here as an exact integer quotient.
\<close>

record MouseEvent =
  button :: int
  clientY :: int

definition deltaMinutes_of :: "int \<Rightarrow> int" where
  "deltaMinutes_of deltaY = (deltaY * 60) div HOUR_HEIGHT"

text \<open>What \<open>handleMouseDown\<close> captures for the move handler it installs: the block as it
  was at pointer-down, the pointer position and the block's start in minutes.\<close>

record DragCapture =
  drag_block :: ScheduleBlock
  drag_blockId :: string
  drag_startY :: int
  drag_originalStartTime :: jsnum

definition handleMouseDown :: "ScheduleBlock list \<Rightarrow> MouseEvent \<Rightarrow> string \<Rightarrow> DragCapture option" where
  "handleMouseDown bs event blockId =
     (if button event \<noteq> 0 then None
      else case find (\<lambda>b. id' b = blockId) bs of
             None \<Rightarrow> None
           | Some block \<Rightarrow>
               Some \<lparr>drag_block = block, drag_blockId = blockId, drag_startY = clientY event,
                     drag_originalStartTime = timeToMinutes (startTime block)\<rparr>)"

text \<open>The move handler of a drag; \<open>timeline_mounted\<close> stands for
  \<open>timelineRef.current\<close> being set.\<close>

definition drag_handleMouseMove :: "DragCapture \<Rightarrow> bool \<Rightarrow> MouseEvent \<Rightarrow> editor_effect" where
  "drag_handleMouseMove cap timeline_mounted e =
     (if \<not> timeline_mounted then NoEffect
      else
        let deltaY = clientY e - drag_startY cap;
            deltaMinutes = deltaMinutes_of deltaY;
            newStartMinutes = snapToGrid (js_add (drag_originalStartTime cap) (Finite deltaMinutes));
            duration0 = js_sub (timeToMinutes (endTime (drag_block cap)))
                               (timeToMinutes (startTime (drag_block cap)));
            clampedStartMinutes =
              Math_max (Finite 0) (Math_min (js_sub (Finite 1440) duration0) newStartMinutes);
            newStartTime = minutesToTime clampedStartMinutes;
            newEndTime = minutesToTime (js_add clampedStartMinutes duration0)
        in BlockUpdate (drag_blockId cap)
             (no_updates\<lparr>upd_startTime := Some newStartTime, upd_endTime := Some newEndTime\<rparr>))"

record ResizeCapture =
  resize_blockId :: string
  resize_startY :: int
  resize_originalEndTime :: jsnum
  resize_originalStartTime :: jsnum

definition handleResizeMouseDown ::
  "ScheduleBlock list \<Rightarrow> MouseEvent \<Rightarrow> string \<Rightarrow> ResizeCapture option" where
  "handleResizeMouseDown bs event blockId =
     (if button event \<noteq> 0 then None
      else case find (\<lambda>b. id' b = blockId) bs of
             None \<Rightarrow> None
           | Some block \<Rightarrow>
               Some \<lparr>resize_blockId = blockId, resize_startY = clientY event,
                     resize_originalEndTime = timeToMinutes (endTime block),
                     resize_originalStartTime = timeToMinutes (startTime block)\<rparr>)"

definition resize_handleMouseMove :: "ResizeCapture \<Rightarrow> bool \<Rightarrow> MouseEvent \<Rightarrow> editor_effect" where
  "resize_handleMouseMove cap timeline_mounted e =
     (if \<not> timeline_mounted then NoEffect
      else
        let deltaY = clientY e - resize_startY cap;
            deltaMinutes = deltaMinutes_of deltaY;
            newEndMinutes = snapToGrid (js_add (resize_originalEndTime cap) (Finite deltaMinutes));
            minEndTime = js_add (resize_originalStartTime cap) (Finite 15);
            maxEndTime = Finite 1440;
            clampedEndMinutes = Math_max minEndTime (Math_min maxEndTime newEndMinutes);
            newEndTime = minutesToTime clampedEndMinutes
        in BlockUpdate (resize_blockId cap) (no_updates\<lparr>upd_endTime := Some newEndTime\<rparr>))"

text \<open>The effect of a handler on the planner's block list.\<close>

definition apply_effect :: "ScheduleBlock list \<Rightarrow> editor_effect \<Rightarrow> ScheduleBlock list" where
  "apply_effect bs eff =
     (case eff of
        BlockUpdate blockId updates \<Rightarrow> handleBlockUpdate bs blockId updates
      | BlockDelete blockId \<Rightarrow> filter (\<lambda>block. id' block \<noteq> blockId) bs
      | _ \<Rightarrow> bs)"

text \<open>The duration invariant of the data model, on the stored fields of one block.\<close>

definition duration_invariant :: "ScheduleBlock \<Rightarrow> bool" where
  "duration_invariant b =
     (case js_sub (timeToMinutes (endTime b)) (timeToMinutes (startTime b)) of
        NaN \<Rightarrow> False
      | Finite d \<Rightarrow> duration b = d mod 1440)"

section \<open>Scenario inputs\<close>

text \<open>A schedule with 10 hours of work, one hour of personal time, 6 hours of sleep and
  no exercise.\<close>

definition scenario_E_blocks :: "ScheduleBlock list" where
  "scenario_E_blocks =
     [\<lparr>id' = ''1'', title = ''Work'', startTime = ''08:00'', endTime = ''18:00'', duration = 600,
       type' = Work, description = None, priority = None, flexible = None\<rparr>,
      \<lparr>id' = ''2'', title = ''Family'', startTime = ''18:00'', endTime = ''19:00'', duration = 60,
       type' = Personal, description = None, priority = None, flexible = None\<rparr>,
      \<lparr>id' = ''3'', title = ''Sleep'', startTime = ''23:00'', endTime = ''05:00'', duration = 360,
       type' = Sleep, description = None, priority = None, flexible = None\<rparr>]"

text \<open>Two candidates that both start at 10:00, and a schedule to put them in.\<close>

definition scenario_B_first :: ScheduleBlock where
  "scenario_B_first =
     \<lparr>id' = ''a'', title = ''Review'', startTime = ''10:00'', endTime = ''11:00'', duration = 60,
      type' = Work, description = None, priority = None, flexible = None\<rparr>"

definition scenario_B_second :: ScheduleBlock where
  "scenario_B_second =
     \<lparr>id' = ''b'', title = ''Call'', startTime = ''10:00'', endTime = ''10:30'', duration = 30,
      type' = Work, description = None, priority = None, flexible = None\<rparr>"

definition empty_schedule :: DailySchedule where
  "empty_schedule =
     \<lparr>blocks = [], totalHours = 24,
      workLifeBalance = \<lparr>workHours = 0, personalHours = 0, sleepHours = 0, exerciseMinutes = 0\<rparr>,
      suggestions = [], optimizationScore = 0\<rparr>"

text \<open>Blocks for the editing scenarios: an hour of work from 10:00, and two 45-minute
  blocks, one starting off the 5-minute grid and one on it.\<close>

definition example_block :: ScheduleBlock where
  "example_block =
     \<lparr>id' = ''1'', title = ''Deep work'', startTime = ''10:00'', endTime = ''11:00'', duration = 60,
      type' = Work, description = None, priority = None, flexible = None\<rparr>"

definition off_grid_block :: ScheduleBlock where
  "off_grid_block =
     \<lparr>id' = ''1'', title = ''Stand-up'', startTime = ''10:03'', endTime = ''10:48'', duration = 45,
      type' = Work, description = None, priority = None, flexible = None\<rparr>"

definition on_grid_block :: ScheduleBlock where
  "on_grid_block =
     \<lparr>id' = ''1'', title = ''Stand-up'', startTime = ''10:00'', endTime = ''10:45'', duration = 45,
      type' = Work, description = None, priority = None, flexible = None\<rparr>"

section \<open>Predicates used to state the repairer's properties\<close>

text \<open>
  \<open>repaired_from index lastEndTime xs\<close>: the list \<open>xs\<close> looks like an output of the sweep
  started with \<open>index\<close> and \<open>lastEndTime\<close>: every start parses and is not before the end
  of the block in front of it, the ids count up from \<open>index + 1\<close>, every duration is at
  least 15 and every end is printed from start plus duration.
  \<open>ascending_starts xs\<close>: the start times of neighbours, in minutes, do not decrease.
\<close>

fun repaired_from :: "nat \<Rightarrow> string \<Rightarrow> ScheduleBlock list \<Rightarrow> bool" where
  "repaired_from index lastEndTime [] = True"
| "repaired_from index lastEndTime (b # rest) =
     (case (timeToMinutes lastEndTime, timeToMinutes (startTime b)) of
        (Finite l, Finite s) \<Rightarrow>
          0 \<le> l \<and> l \<le> s
          \<and> id' b = String_int (int index + 1)
          \<and> 15 \<le> duration b
          \<and> endTime b = minutesToTime (Finite (s + duration b))
          \<and> repaired_from (index + 1) (endTime b) rest
      | _ \<Rightarrow> False)"

fun ascending_starts :: "ScheduleBlock list \<Rightarrow> bool" where
  "ascending_starts (a # b # rest) =
     (js_le (timeToMinutes (startTime a)) (timeToMinutes (startTime b))
      \<and> ascending_starts (b # rest))"
| "ascending_starts _ = True"

section \<open>Schedules for the repairer scenarios\<close>

text \<open>A schedule in which the second block is pushed past midnight, the schedule of the
  two candidates that start at 10:00, and the fields of a block that the claims compare.\<close>

definition wrap_schedule :: DailySchedule where
  "wrap_schedule =
     empty_schedule\<lparr>blocks :=
       [\<lparr>id' = ''x'', title = ''Workshop'', startTime = ''10:00'', endTime = ''23:00'',
         duration = 780, type' = Work, description = None, priority = None, flexible = None\<rparr>,
        \<lparr>id' = ''y'', title = ''Film'', startTime = ''11:00'', endTime = ''13:00'',
         duration = 120, type' = Personal, description = None, priority = None, flexible = None\<rparr>,
        \<lparr>id' = ''z'', title = ''Lunch'', startTime = ''12:00'', endTime = ''13:00'',
         duration = 60, type' = Meal, description = None, priority = None, flexible = None\<rparr>]\<rparr>"

definition tie_schedule :: DailySchedule where
  "tie_schedule = empty_schedule\<lparr>blocks := [scenario_B_first, scenario_B_second]\<rparr>"

definition summary :: "ScheduleBlock \<Rightarrow> string \<times> string \<times> string \<times> string \<times> int" where
  "summary b = (id' b, title b, startTime b, endTime b, duration b)"

text \<open>A schedule in which a block that is pushed past midnight leaves a later block
  inside an earlier one.\<close>

definition evening_schedule :: DailySchedule where
  "evening_schedule =
     empty_schedule\<lparr>blocks :=
       [\<lparr>id' = ''w'', title = ''Work'', startTime = ''09:00'', endTime = ''23:00'',
         duration = 840, type' = Work, description = None, priority = None, flexible = None\<rparr>,
        \<lparr>id' = ''d'', title = ''Dinner'', startTime = ''19:00'', endTime = ''20:30'',
         duration = 90, type' = Meal, description = None, priority = None, flexible = None\<rparr>,
        \<lparr>id' = ''r'', title = ''Reading'', startTime = ''21:00'', endTime = ''22:00'',
         duration = 60, type' = Personal, description = None, priority = None, flexible = None\<rparr>]\<rparr>"

text \<open>A schedule whose first block has a start time that is not a time of day.\<close>

definition unparsed_schedule :: DailySchedule where
  "unparsed_schedule =
     empty_schedule\<lparr>blocks :=
       [\<lparr>id' = ''l'', title = ''Lunch'', startTime = ''noon'', endTime = ''13:00'',
         duration = 60, type' = Meal, description = None, priority = None, flexible = None\<rparr>,
        \<lparr>id' = ''c'', title = ''Call'', startTime = ''13:00'', endTime = ''13:30'',
         duration = 30, type' = Work, description = None, priority = None, flexible = None\<rparr>]\<rparr>"

section \<open>Predicates used to state the layout's properties\<close>

text \<open>
  \<open>proper_event\<close>: start and end are numbers and the event has positive length.
  \<open>before evs i j\<close>: event \<open>i\<close> of the array ends no later than event \<open>j\<close> starts.
  \<open>layout_inv evs k st\<close>: the state of the layout loop after the first \<open>k\<close> events. Every
  group is non-empty, holds indices below \<open>k\<close> and gives its members distinct lanes; every
  index below \<open>k\<close> is in a group; every event of a group ends before any event of a
  later group starts; and every member of a group but the first overlaps a member that
  joined the group before it.
\<close>

definition proper_event :: "LayoutEvent \<Rightarrow> bool" where
  "proper_event e = (case (start e, end' e) of (Finite s, Finite t) \<Rightarrow> s < t | _ \<Rightarrow> False)"

definition before :: "LayoutEvent list \<Rightarrow> nat \<Rightarrow> nat \<Rightarrow> bool" where
  "before evs i j = js_le (end' (evs ! i)) (start (evs ! j))"

definition layout_inv :: "LayoutEvent list \<Rightarrow> nat \<Rightarrow> layout_state \<Rightarrow> bool" where
  "layout_inv evs k st =
     ((\<forall>g \<in> set (groups st). g \<noteq> [] \<and> (\<forall>j \<in> set g. j < k) \<and> inj_on (lanes st) (set g))
      \<and> (\<forall>j < k. \<exists>g \<in> set (groups st). j \<in> set g)
      \<and> sorted_wrt (\<lambda>g h. \<forall>i \<in> set g. \<forall>j \<in> set h. before evs i j) (groups st)
      \<and> (\<forall>g \<in> set (groups st). \<forall>m < length g. 0 < m \<longrightarrow>
            (\<exists>m' < m. overlaps (evs ! (g ! m)) (evs ! (g ! m')))))"

section \<open>Blocks for the layout scenarios\<close>

text \<open>Scenario C: 09:00 to 11:00, 10:00 to 10:30 and 10:15 to 10:45.\<close>

definition scenario_C_blocks :: "ScheduleBlock list" where
  "scenario_C_blocks =
     [\<lparr>id' = ''1'', title = ''Workshop'', startTime = ''09:00'', endTime = ''11:00'', duration = 120,
       type' = Work, description = None, priority = None, flexible = None\<rparr>,
      \<lparr>id' = ''2'', title = ''Call'', startTime = ''10:00'', endTime = ''10:30'', duration = 30,
       type' = Work, description = None, priority = None, flexible = None\<rparr>,
      \<lparr>id' = ''3'', title = ''Coffee'', startTime = ''10:15'', endTime = ''10:45'', duration = 30,
       type' = Break, description = None, priority = None, flexible = None\<rparr>]"

text \<open>Five blocks, the fourth with a start time that is not a time of day.\<close>

definition collision_blocks :: "ScheduleBlock list" where
  "collision_blocks =
     [\<lparr>id' = ''1'', title = ''Stand-up'', startTime = ''09:00'', endTime = ''10:00'', duration = 60,
       type' = Work, description = None, priority = None, flexible = None\<rparr>,
      \<lparr>id' = ''2'', title = ''Review'', startTime = ''11:00'', endTime = ''12:00'', duration = 60,
       type' = Work, description = None, priority = None, flexible = None\<rparr>,
      \<lparr>id' = ''3'', title = ''Call'', startTime = ''11:10'', endTime = ''12:00'', duration = 50,
       type' = Work, description = None, priority = None, flexible = None\<rparr>,
      \<lparr>id' = ''4'', title = ''Breakfast'', startTime = ''early'', endTime = ''08:00'', duration = 30,
       type' = Meal, description = None, priority = None, flexible = None\<rparr>,
      \<lparr>id' = ''5'', title = ''Workshop'', startTime = ''09:30'', endTime = ''11:30'', duration = 120,
       type' = Work, description = None, priority = None, flexible = None\<rparr>]"

section \<open>Minute counts and blocks for the analytics scenarios\<close>





section \<open>Properties of the time utilities\<close>

lemma of_char_digit_char: "d < 10 \<Longrightarrow> (of_char (digit_char d) :: nat) = 48 + d"
  by (simp add: digit_char_def)

lemma is_digit_digit_char: "d < 10 \<Longrightarrow> is_digit (digit_char d)"
  by (simp add: is_digit_def of_char_digit_char)

lemma digit_val_digit_char: "d < 10 \<Longrightarrow> digit_val (digit_char d) = int d"
  by (simp add: digit_val_def of_char_digit_char)

lemma is_digit_not_special:
  assumes "is_digit c"
  shows "\<not> is_ws c" and "c \<noteq> CHR '':''" and "c \<noteq> CHR ''-''" and "c \<noteq> CHR ''+''"
  using assms by (auto simp: is_digit_def is_ws_def)

lemma Number_two_digits:
  assumes "is_digit a" and "is_digit b"
  shows "Number [a, b] = Finite (digit_val a * 10 + digit_val b)"
  using assms is_digit_not_special [of a] is_digit_not_special [of b]
  by (simp add: Number_def trim_def unsigned_dec_def digits_val_def)

lemma split_colon_HHMM:
  assumes "is_digit a" "is_digit b" "is_digit c" "is_digit d"
  shows "split_colon [a, b, CHR '':'', c, d] = [[a, b], [c, d]]"
  using assms is_digit_not_special(2) by simp

lemma timeToMinutes_digits:
  assumes "is_digit a" "is_digit b" "is_digit c" "is_digit d"
  shows "timeToMinutes [a, b, CHR '':'', c, d]
       = Finite ((digit_val a * 10 + digit_val b) * 60 + (digit_val c * 10 + digit_val d))"
  using assms by (simp add: timeToMinutes_def split_colon_HHMM Number_two_digits del: split_colon.simps)

lemma digit_val_nonneg: "is_digit c \<Longrightarrow> 0 \<le> digit_val c"
  by (simp add: is_digit_def digit_val_def)

lemma timeToMinutes_HHMM:
  assumes "is_HHMM t"
  shows "\<exists>n. timeToMinutes t = Finite n \<and> 0 \<le> n \<and> n < 1440"
proof -
  from assms obtain a b c d where t: "t = [a, b, CHR '':'', c, d]"
    and dg: "is_digit a" "is_digit b" "is_digit c" "is_digit d"
    and h: "digit_val a * 10 + digit_val b < 24" and m: "digit_val c * 10 + digit_val d < 60"
    by (auto simp: is_HHMM_def split: list.splits)
  have "0 \<le> digit_val a" "0 \<le> digit_val b" "0 \<le> digit_val c" "0 \<le> digit_val d"
    using dg by (simp_all add: digit_val_nonneg)
  with h m show ?thesis
    unfolding t timeToMinutes_digits [OF dg] by simp
qed

lemma digit_char_0: "digit_char 0 = CHR ''0''"
  by code_simp

lemma padStart2_dec_digits:
  assumes "n < 100"
  shows "padStart2 (dec_digits n) = two_digits n"
proof (cases "n < 10")
  case True
  then show ?thesis by (simp add: dec_digits.simps [of n] padStart2_def digit_char_0 two_digits_def)
next
  case False
  with assms have "n div 10 < 10" by simp
  with False show ?thesis
    by (simp add: dec_digits.simps [of n] dec_digits.simps [of "n div 10"] padStart2_def two_digits_def)
qed

lemma two_digit_val: "int (n div 10) * 10 + int (n mod 10) = int n"
  using arg_cong [OF div_mult_mod_eq [of n 10], of int]
  by (simp only: of_nat_add of_nat_mult of_nat_numeral)

lemma timeToMinutes_two_digits:
  assumes "h < 100" and "mi < 100"
  shows "timeToMinutes (two_digits h @ CHR '':'' # two_digits mi) = Finite (int h * 60 + int mi)"
proof -
  have b: "h div 10 < 10" "h mod 10 < 10" "mi div 10 < 10" "mi mod 10 < 10"
    using assms by simp_all
  then show ?thesis
    by (simp add: two_digits_def timeToMinutes_digits is_digit_digit_char digit_val_digit_char
          two_digit_val)
qed

lemma is_HHMM_two_digits:
  assumes "h < 24" and "mi < 60"
  shows "is_HHMM (two_digits h @ CHR '':'' # two_digits mi)"
proof -
  have b: "h div 10 < 10" "h mod 10 < 10" "mi div 10 < 10" "mi mod 10 < 10"
    using assms by simp_all
  have "int h < 24" "int mi < 60" using assms by simp_all
  with b show ?thesis
    by (simp add: two_digits_def is_HHMM_def is_digit_digit_char digit_val_digit_char two_digit_val)
qed

lemma clock_split: fixes m :: int shows "((m div 60) mod 24) * 60 + m mod 60 = m mod 1440"
  using zmod_zmult2_eq [of 24 m 60] by simp

lemma minutesToTime_nonneg:
  assumes "0 \<le> m"
  shows "minutesToTime (Finite m)
       = two_digits (nat ((m div 60) mod 24)) @ CHR '':'' # two_digits (nat (m mod 60))"
proof -
  have h: "js_rem (m div 60) 24 = (m div 60) mod 24"
    using assms by (simp add: js_rem_def sgn_if pos_imp_zdiv_nonneg_iff)
  have mi: "js_rem m 60 = m mod 60"
    using assms by (simp add: js_rem_def sgn_if)
  have nn: "\<not> (m div 60) mod 24 < 0" "\<not> m mod 60 < 0" by simp_all
  have "nat ((m div 60) mod 24) < 100" "nat (m mod 60) < 100" by simp_all
  with nn show ?thesis
    by (simp add: minutesToTime.simps h mi String_int_def padStart2_dec_digits Let_def)
qed

lemma timeToMinutes_minutesToTime:
  assumes "0 \<le> m"
  shows "timeToMinutes (minutesToTime (Finite m)) = Finite (m mod 1440)"
proof -
  have "nat ((m div 60) mod 24) < 100" "nat (m mod 60) < 100" by simp_all
  then have "timeToMinutes (minutesToTime (Finite m))
      = Finite (int (nat ((m div 60) mod 24)) * 60 + int (nat (m mod 60)))"
    unfolding minutesToTime_nonneg [OF assms] by (rule timeToMinutes_two_digits)
  also have "int (nat ((m div 60) mod 24)) = (m div 60) mod 24" by simp
  also have "int (nat (m mod 60)) = m mod 60" by simp
  finally show ?thesis by (simp only: clock_split)
qed

lemma is_HHMM_minutesToTime:
  assumes "0 \<le> m"
  shows "is_HHMM (minutesToTime (Finite m))"
proof -
  have "nat ((m div 60) mod 24) < 24" "nat (m mod 60) < 60" by simp_all
  then show ?thesis
    unfolding minutesToTime_nonneg [OF assms] by (rule is_HHMM_two_digits)
qed

lemma split_colon_no_colon: "CHR '':'' \<notin> set t \<Longrightarrow> split_colon t = [t]"
  by (induction t) auto

lemma timeToMinutes_no_colon: "CHR '':'' \<notin> set t \<Longrightarrow> timeToMinutes t = NaN"
  by (simp add: timeToMinutes_def split_colon_no_colon)

text \<open>Clock strings used in the scenarios below.\<close>

lemma timeToMinutes_values:
  "timeToMinutes ''00:00'' = Finite 0"
  "timeToMinutes ''09:45'' = Finite 585"
  "timeToMinutes ''10:00'' = Finite 600"
  "timeToMinutes ''10:03'' = Finite 603"
  "timeToMinutes ''10:10'' = Finite 610"
  "timeToMinutes ''10:45'' = Finite 645"
  "timeToMinutes ''10:48'' = Finite 648"
  "timeToMinutes ''11:00'' = Finite 660"
  "timeToMinutes ''11:30'' = Finite 690"
  "timeToMinutes ''12:00'' = Finite 720"
  "timeToMinutes ''23:00'' = Finite 1380"
  by code_simp+

lemma minutesToTime_values:
  "minutesToTime (Finite 0) = ''00:00''"
  "minutesToTime (Finite 585) = ''09:45''"
  "minutesToTime (Finite 610) = ''10:10''"
  "minutesToTime (Finite 645) = ''10:45''"
  "minutesToTime (Finite 655) = ''10:55''"
  "minutesToTime (Finite 660) = ''11:00''"
  "minutesToTime (Finite 690) = ''11:30''"
  "minutesToTime (Finite 780) = ''13:00''"
  "minutesToTime (Finite 1380) = ''23:00''"
  "minutesToTime (Finite 1440) = ''00:00''"
  "minutesToTime (Finite 1500) = ''01:00''"
  by code_simp+

text \<open>
  Claim C8, as amended. For every well-formed \<open>HH:MM\<close> string \<open>timeToMinutes\<close> returns an
  integer in \<open>[0, 1440)\<close>, and for every string without a colon it returns \<open>NaN\<close>. The
  function checks neither the shape nor the range of its input, so other malformed strings
  yield ordinary numbers.
\<close>

theorem timeToMinutes_contract:
  "(is_HHMM t \<longrightarrow> (\<exists>n. timeToMinutes t = Finite n \<and> 0 \<le> n \<and> n < 1440))
   \<and> (CHR '':'' \<notin> set t \<longrightarrow> timeToMinutes t = NaN)"
  using timeToMinutes_HHMM timeToMinutes_no_colon by blast

theorem timeToMinutes_contract_witness:
  "is_HHMM ''09:45'' \<and> (\<exists>n. timeToMinutes ''09:45'' = Finite n \<and> 0 \<le> n \<and> n < 1440)
   \<and> CHR '':'' \<notin> set ''0945'' \<and> timeToMinutes ''0945'' = NaN"
proof -
  have a: "is_HHMM ''09:45''" by code_simp
  have b: "CHR '':'' \<notin> set ''0945''" by simp
  show ?thesis
    using timeToMinutes_contract [of "''09:45''"] timeToMinutes_contract [of "''0945''"] a b
    by blast
qed

text \<open>
  Claim C8 as stated fails: \<open>25:00\<close> is not a well-formed time of day, yet
  \<open>timeToMinutes\<close> returns the ordinary number 1500 for it, outside \<open>[0, 1440)\<close> and
  without any failure; the misshapen \<open>7:5\<close> gives 425.
\<close>

theorem timeToMinutes_malformed_counterexample:
  "\<not> is_HHMM ''25:00'' \<and> timeToMinutes ''25:00'' = Finite 1500
   \<and> \<not> is_HHMM ''7:5'' \<and> timeToMinutes ''7:5'' = Finite 425"
  by code_simp

section \<open>Score and suggestions\<close>

lemma structure_penalties_le: "structure_penalties bs t score \<le> score"
  by (simp add: structure_penalties_def Let_def)

lemma score_below_50:
  assumes "workHours (calculateWorkLifeBalance bs) = 10"
      and "exerciseMinutes (calculateWorkLifeBalance bs) = 0"
      and "sleepHours (calculateWorkLifeBalance bs) = 6"
      and "personalHours (calculateWorkLifeBalance bs) = 1"
  shows "calculateOptimizationScore bs < 50"
proof -
  let ?t = "calculateWorkLifeBalance bs"
  have b: "balance_penalties ?t 100 = 70"
    using assms by (simp add: balance_penalties_def Let_def)
  have h: "health_penalties ?t 70 = 30"
    using assms by (simp add: health_penalties_def Let_def)
  have "structure_penalties bs ?t 30 \<le> 30" by (rule structure_penalties_le)
  then show ?thesis
    by (simp add: calculateOptimizationScore_def Let_def b h)
qed

lemma suggestions_E:
  assumes "workHours (calculateWorkLifeBalance bs) = 10"
      and "exerciseMinutes (calculateWorkLifeBalance bs) = 0"
      and "sleepHours (calculateWorkLifeBalance bs) = 6"
      and "personalHours (calculateWorkLifeBalance bs) = 1"
  shows "take 3 (generateSmartSuggestions bs inp) =
     [''Consider reducing work hours to improve work-life balance'',
      ''Add at least 30 minutes of daily exercise for better health'',
      ''Increase sleep duration to 7-9 hours for optimal recovery'']"
  using assms by (simp add: generateSmartSuggestions_def Let_def)

text \<open>
  Claim C9 (Scenario E). For every block list whose aggregates, as
  \<open>calculateWorkLifeBalance\<close> computes them, are 10 hours of work, 0 minutes of exercise,
  6 hours of sleep and 1 hour of personal time, \<open>calculateOptimizationScore\<close> is below 50
  and \<open>generateSmartSuggestions\<close> contains the suggestions to reduce work hours, to add
  exercise and to increase sleep.
\<close>

theorem scenario_E:
  assumes "workHours (calculateWorkLifeBalance bs) = 10"
      and "exerciseMinutes (calculateWorkLifeBalance bs) = 0"
      and "sleepHours (calculateWorkLifeBalance bs) = 6"
      and "personalHours (calculateWorkLifeBalance bs) = 1"
  shows "calculateOptimizationScore bs < 50
       \<and> ''Consider reducing work hours to improve work-life balance''
             \<in> set (generateSmartSuggestions bs originalInput)
       \<and> ''Add at least 30 minutes of daily exercise for better health''
             \<in> set (generateSmartSuggestions bs originalInput)
       \<and> ''Increase sleep duration to 7-9 hours for optimal recovery''
             \<in> set (generateSmartSuggestions bs originalInput)"
proof -
  have "set (take 3 (generateSmartSuggestions bs originalInput))
          \<subseteq> set (generateSmartSuggestions bs originalInput)"
    by (rule set_take_subset)
  then show ?thesis
    using score_below_50 [OF assms] by (simp add: suggestions_E [OF assms])
qed

lemma scenario_E_balance:
  "calculateWorkLifeBalance scenario_E_blocks
     = \<lparr>workHours = 10, personalHours = 1, sleepHours = 6, exerciseMinutes = 0\<rparr>"
  by (simp add: scenario_E_blocks_def calculateWorkLifeBalance_def sum_totals_def
        add_to_totals_def Let_def)

theorem scenario_E_witness:
  "workHours (calculateWorkLifeBalance scenario_E_blocks) = 10
   \<and> exerciseMinutes (calculateWorkLifeBalance scenario_E_blocks) = 0
   \<and> sleepHours (calculateWorkLifeBalance scenario_E_blocks) = 6
   \<and> personalHours (calculateWorkLifeBalance scenario_E_blocks) = 1
   \<and> calculateOptimizationScore scenario_E_blocks < 50
   \<and> ''Consider reducing work hours to improve work-life balance''
         \<in> set (generateSmartSuggestions scenario_E_blocks '''')
   \<and> ''Add at least 30 minutes of daily exercise for better health''
         \<in> set (generateSmartSuggestions scenario_E_blocks '''')
   \<and> ''Increase sleep duration to 7-9 hours for optimal recovery''
         \<in> set (generateSmartSuggestions scenario_E_blocks '''')"
  using scenario_E [of scenario_E_blocks "''''"] by (simp add: scenario_E_balance)

section \<open>Time analytics with an empty total\<close>












section \<open>The repairer on equal start times\<close>

lemma String_int_values: "String_int 1 = ''1''" "String_int 2 = ''2''" "String_int 3 = ''3''"
  by code_simp+

lemma sort_by_two:
  "sort_by cmp [a, b] = (if js_gt (cmp a b) (Finite 0) then [b, a] else [a, b])"
  by (simp add: sort_by_def)

text \<open>
  Claim C5 (Scenario B). Two candidates that both start at 10:00, with durations 60 and 30
  in that order: the repairer keeps the first at 10:00 to 11:00 and pushes the second to
  start at 11:00. The sort is stable, so the candidate that comes first in the input is
  swept first.
\<close>

theorem repair_tie_break:
  assumes "startTime a = ''10:00''" and "startTime b = ''10:00''"
      and "duration a = 60" and "duration b = 30"
  shows "blocks (validateAndFixSchedule (schedule\<lparr>blocks := [a, b]\<rparr>) originalInput)
       = [a\<lparr>id' := ''1'', startTime := ''10:00'', endTime := ''11:00'', duration := 60\<rparr>,
          b\<lparr>id' := ''2'', startTime := ''11:00'', endTime := ''11:30'', duration := 30\<rparr>]"
  using assms
  by (simp add: validateAndFixSchedule_def sort_by_two compareStart_def Let_def
        timeToMinutes_values minutesToTime_values String_int_values)

theorem repair_tie_break_witness:
  "startTime scenario_B_first = ''10:00'' \<and> startTime scenario_B_second = ''10:00''
   \<and> duration scenario_B_first = 60 \<and> duration scenario_B_second = 30
   \<and> map (\<lambda>b. (id' b, title b, startTime b, endTime b, duration b))
         (blocks (validateAndFixSchedule
            (empty_schedule\<lparr>blocks := [scenario_B_first, scenario_B_second]\<rparr>) ''''))
       = [(''1'', ''Review'', ''10:00'', ''11:00'', 60), (''2'', ''Call'', ''11:00'', ''11:30'', 30)]"
  using repair_tie_break [of scenario_B_first scenario_B_second empty_schedule "''''"]
  by (simp add: scenario_B_first_def scenario_B_second_def)

section \<open>Editing a block on the timeline\<close>

lemma Math_round_fifth: "Math_round (of_int m / 5) = (2 * m + 5) div 10"
proof -
  have "(of_int m :: rat) / 5 + 1 / 2 = of_int (2 * m + 5) / of_int 10" by simp
  then show ?thesis unfolding Math_round_def by (simp only: floor_divide_of_int_eq)
qed

lemma snapToGrid_Finite: "snapToGrid (Finite m) = Finite ((2 * m + 5) div 10 * 5)"
  by (simp add: snapToGrid.simps(2) SNAP_MINUTES_def Math_round_fifth)

lemma snap_near:
  fixes m :: int
  shows "5 dvd (2 * m + 5) div 10 * 5" and "\<bar>(2 * m + 5) div 10 * 5 - m\<bar> \<le> 2"
proof -
  show "5 dvd (2 * m + 5) div 10 * 5" by simp
  have eq: "(2 * m + 5) div 10 * 10 + (2 * m + 5) mod 10 = 2 * m + 5" by simp
  have "0 \<le> (2 * m + 5) mod 10" "(2 * m + 5) mod 10 < 10" by simp_all
  with eq show "\<bar>(2 * m + 5) div 10 * 5 - m\<bar> \<le> 2" by linarith
qed

lemma snap_seven_on_grid:
  fixes s :: int
  assumes "5 dvd s"
  shows "(2 * (s + 7) + 5) div 10 * 5 = s + 5"
proof -
  from assms obtain k where k: "s = 5 * k" by (elim dvdE)
  have "(2 * (s + 7) + 5) = 10 * (k + 1) + 9" unfolding k by simp
  then have "(2 * (s + 7) + 5) div 10 = k + 1" by simp
  then show ?thesis unfolding k by simp
qed

lemma deltaMinutes_of_eq: "deltaMinutes_of d = d"
  by (simp add: deltaMinutes_of_def HOUR_HEIGHT_def)

lemma apply_time_updates:
  "apply_updates b (no_updates\<lparr>upd_startTime := Some st, upd_endTime := Some en\<rparr>)
     = b\<lparr>startTime := st, endTime := en\<rparr>"
  by (simp add: apply_updates_def no_updates_def or_else_def)

lemma apply_end_update:
  "apply_updates b (no_updates\<lparr>upd_endTime := Some en\<rparr>) = b\<lparr>endTime := en\<rparr>"
  by (simp add: apply_updates_def no_updates_def or_else_def)

lemma handleKeyDown_ignores_shiftKey:
  "handleKeyDown bs (event\<lparr>shiftKey := held\<rparr>) blockId = handleKeyDown bs event blockId"
  by (simp add: handleKeyDown_def Let_def split: option.split)

text \<open>Whatever the pointer does, a resize move asks for a new \<open>endTime\<close> and for
  nothing else; the stored duration stays as it was.\<close>

lemma resize_writes_endTime_only:
  "resize_handleMouseMove cap True e
     = BlockUpdate (resize_blockId cap)
         (no_updates\<lparr>upd_endTime :=
            Some (minutesToTime
              (Math_max (js_add (resize_originalStartTime cap) (Finite 15))
                 (Math_min (Finite 1440)
                    (snapToGrid (js_add (resize_originalEndTime cap)
                       (Finite (clientY e - resize_startY cap)))))))\<rparr>)"
  by (simp add: resize_handleMouseMove_def Let_def deltaMinutes_of_eq)

lemma resize_keeps_duration:
  "duration (apply_updates b (no_updates\<lparr>upd_endTime := Some en\<rparr>)) = duration b"
  by (simp add: apply_end_update)

text \<open>
  Claim C1 asks that every operation on a block's time fields keeps
  \<open>duration = (endTime - startTime) mod 1440\<close>. The resize handler writes \<open>endTime\<close>
  alone: the block from 10:00 to 11:00 with duration 60 satisfies the invariant, a resize
  by 30 pixels stores the end 11:30, and the stored duration is still 60.
\<close>

theorem resize_breaks_duration_invariant:
  "duration_invariant example_block
   \<and> (case handleResizeMouseDown [example_block] \<lparr>button = 0, clientY = 100\<rparr> ''1'' of
         None \<Rightarrow> False
       | Some cap \<Rightarrow>
           apply_effect [example_block]
             (resize_handleMouseMove cap True \<lparr>button = 0, clientY = 130\<rparr>)
           = [example_block\<lparr>endTime := ''11:30''\<rparr>])
   \<and> \<not> duration_invariant (example_block\<lparr>endTime := ''11:30''\<rparr>)"
  by (simp add: example_block_def duration_invariant_def handleResizeMouseDown_def
        resize_handleMouseMove_def apply_effect_def handleBlockUpdate_def apply_end_update
        deltaMinutes_of_eq snapToGrid_Finite timeToMinutes_values minutesToTime_values Let_def)

text \<open>
  Claim C7 asks that Shift+Up changes \<open>endTime\<close> only. The browser reports that keystroke
  with \<open>key = ArrowUp\<close> and \<open>shiftKey = true\<close>; \<open>handleKeyDown\<close> never reads
  \<open>shiftKey\<close>, so the move branch runs and both \<open>startTime\<close> and \<open>endTime\<close> change: the
  block from 10:00 to 11:00 moves to 09:45 to 10:45.
\<close>

theorem shift_arrow_moves_block:
  "handleKeyDown [example_block] \<lparr>key = ''ArrowUp'', shiftKey = True\<rparr> ''1''
     = BlockUpdate ''1''
         (no_updates\<lparr>upd_startTime := Some ''09:45'', upd_endTime := Some ''10:45''\<rparr>)
   \<and> apply_effect [example_block]
         (handleKeyDown [example_block] \<lparr>key = ''ArrowUp'', shiftKey = True\<rparr> ''1'')
       = [example_block\<lparr>startTime := ''09:45'', endTime := ''10:45''\<rparr>]
   \<and> startTime (example_block\<lparr>startTime := ''09:45'', endTime := ''10:45''\<rparr>)
       \<noteq> startTime example_block"
  by (simp add: example_block_def handleKeyDown_def apply_effect_def handleBlockUpdate_def
        apply_time_updates snapToGrid_Finite timeToMinutes_values minutesToTime_values Let_def)

text \<open>
  Claim C6 as stated fails in its example: a block that starts off the grid, at 10:03,
  dragged by 7 pixels (7 minutes) gets the start 10:10, a move by exactly 7 minutes.
\<close>

theorem drag_off_grid_counterexample:
  "(case handleMouseDown [off_grid_block] \<lparr>button = 0, clientY = 100\<rparr> ''1'' of
      None \<Rightarrow> False
    | Some cap \<Rightarrow>
        drag_handleMouseMove cap True \<lparr>button = 0, clientY = 107\<rparr>
        = BlockUpdate ''1''
            (no_updates\<lparr>upd_startTime := Some ''10:10'', upd_endTime := Some ''10:55''\<rparr>))
   \<and> timeToMinutes ''10:10'' = js_add (timeToMinutes (startTime off_grid_block)) (Finite 7)"
  by (simp add: off_grid_block_def handleMouseDown_def drag_handleMouseMove_def
        deltaMinutes_of_eq snapToGrid_Finite timeToMinutes_values minutesToTime_values Let_def)


lemma more_clock_values:
  "minutesToTime (Finite 605) = ''10:05''"
  "minutesToTime (Finite 650) = ''10:50''"
  by code_simp+

lemma handleMouseDown_Some:
  assumes "handleMouseDown bs down blockId = Some cap"
      and "find (\<lambda>b. id' b = blockId) bs = Some b"
  shows "cap = \<lparr>drag_block = b, drag_blockId = blockId, drag_startY = clientY down,
                drag_originalStartTime = timeToMinutes (startTime b)\<rparr>"
  using assms by (auto simp: handleMouseDown_def split: if_splits)

lemma clock_difference:
  fixes c d :: int
  shows "((c + d) mod 1440 - c mod 1440) mod 1440 = d mod 1440"
proof -
  have "((c + d) mod 1440 - c mod 1440) mod 1440 = ((c + d) - c) mod 1440"
    by (rule mod_diff_eq)
  then show ?thesis by simp
qed

lemma duration_invariant_moved:
  assumes "timeToMinutes (startTime b) = Finite s" and "timeToMinutes (endTime b) = Finite e"
      and "0 \<le> c" and "0 \<le> c + (e - s)"
  shows "duration_invariant
           (b\<lparr>startTime := minutesToTime (Finite c),
              endTime := minutesToTime (Finite (c + (e - s)))\<rparr>)
         = duration_invariant b"
  using assms
  by (simp add: duration_invariant_def timeToMinutes_minutesToTime clock_difference)

text \<open>
  Claim C6, as amended. Take a block whose stored times parse to \<open>s\<close> and \<open>e\<close> with
  \<open>0 \<le> s \<le> e \<le> 1440\<close> (it does not cross midnight) and let \<open>d = e - s\<close>. On every
  pointer move of a drag the written start is \<open>minutesToTime c\<close>, where \<open>c\<close> is the nearest
  multiple of 5 to the original start plus the pixel delta, clamped to \<open>[0, 1440 - d]\<close>;
  the written end is \<open>minutesToTime (c + d)\<close>; no other field changes, and the duration
  invariant holds after the move exactly if it held before. A delta of 7 moves a block
  whose start lies on the 5-minute grid by 5, when the clamp leaves room for that.
\<close>

theorem drag_move_postcondition:
  assumes down: "handleMouseDown bs down blockId = Some cap"
      and blk: "find (\<lambda>b. id' b = blockId) bs = Some b"
      and s: "timeToMinutes (startTime b) = Finite s"
      and e: "timeToMinutes (endTime b) = Finite e"
      and range: "0 \<le> s" "s \<le> e" "e \<le> 1440"
  shows "\<exists>g c. 5 dvd g \<and> \<bar>g - (s + (clientY move - clientY down))\<bar> \<le> 2
           \<and> c = max 0 (min (1440 - (e - s)) g)
           \<and> 0 \<le> c \<and> c \<le> 1440 - (e - s)
           \<and> drag_handleMouseMove cap True move
               = BlockUpdate blockId
                   (no_updates\<lparr>upd_startTime := Some (minutesToTime (Finite c)),
                      upd_endTime := Some (minutesToTime (Finite (c + (e - s))))\<rparr>)
           \<and> apply_effect [b] (drag_handleMouseMove cap True move)
               = [if id' b = blockId
                  then b\<lparr>startTime := minutesToTime (Finite c),
                         endTime := minutesToTime (Finite (c + (e - s)))\<rparr>
                  else b]
           \<and> duration_invariant
                 (b\<lparr>startTime := minutesToTime (Finite c),
                    endTime := minutesToTime (Finite (c + (e - s)))\<rparr>)
               = duration_invariant b
           \<and> (5 dvd s \<and> clientY move - clientY down = 7 \<and> s + 5 \<le> 1440 - (e - s)
                \<longrightarrow> c = s + 5)"
proof -
  define x where "x = s + (clientY move - clientY down)"
  define g where "g = (2 * x + 5) div 10 * 5"
  define c where "c = max 0 (min (1440 - (e - s)) g)"
  have cap: "cap = \<lparr>drag_block = b, drag_blockId = blockId, drag_startY = clientY down,
                      drag_originalStartTime = timeToMinutes (startTime b)\<rparr>"
    by (rule handleMouseDown_Some [OF down blk])
  have g5: "5 dvd g" and gn: "\<bar>g - x\<bar> \<le> 2"
    unfolding g_def by (rule snap_near)+
  have c0: "0 \<le> c" and c1: "c \<le> 1440 - (e - s)"
    using range by (simp_all add: c_def)
  have mv: "drag_handleMouseMove cap True move
          = BlockUpdate blockId
              (no_updates\<lparr>upd_startTime := Some (minutesToTime (Finite c)),
                 upd_endTime := Some (minutesToTime (Finite (c + (e - s))))\<rparr>)"
    by (simp add: drag_handleMouseMove_def cap s e deltaMinutes_of_eq snapToGrid_Finite
          Let_def c_def g_def x_def)
  have eff: "apply_effect [b] (drag_handleMouseMove cap True move)
          = [if id' b = blockId
             then b\<lparr>startTime := minutesToTime (Finite c),
                    endTime := minutesToTime (Finite (c + (e - s)))\<rparr>
             else b]"
    by (simp add: mv apply_effect_def handleBlockUpdate_def apply_time_updates)
  have inv: "duration_invariant
               (b\<lparr>startTime := minutesToTime (Finite c),
                  endTime := minutesToTime (Finite (c + (e - s)))\<rparr>)
             = duration_invariant b"
    using c0 range by (intro duration_invariant_moved [OF s e]) simp_all
  have seven: "5 dvd s \<and> clientY move - clientY down = 7 \<and> s + 5 \<le> 1440 - (e - s)
                \<longrightarrow> c = s + 5"
  proof (intro impI, elim conjE)
    assume a: "5 dvd s" "clientY move - clientY down = 7" "s + 5 \<le> 1440 - (e - s)"
    then have "g = (2 * (s + 7) + 5) div 10 * 5" by (simp add: g_def x_def)
    also have "\<dots> = s + 5" by (rule snap_seven_on_grid [OF a(1)])
    finally have "g = s + 5" .
    with a(3) range show "c = s + 5" by (simp add: c_def)
  qed
  from g5 gn c0 c1 mv eff inv seven show ?thesis
    unfolding x_def [symmetric] by (intro exI [of _ g] exI [of _ c]) (simp add: c_def x_def)
qed

theorem drag_move_postcondition_witness:
  "handleMouseDown [on_grid_block] \<lparr>button = 0, clientY = 100\<rparr> ''1''
     = Some \<lparr>drag_block = on_grid_block, drag_blockId = ''1'', drag_startY = 100,
             drag_originalStartTime = Finite 600\<rparr>
   \<and> find (\<lambda>b. id' b = ''1'') [on_grid_block] = Some on_grid_block
   \<and> timeToMinutes (startTime on_grid_block) = Finite 600
   \<and> timeToMinutes (endTime on_grid_block) = Finite 645
   \<and> drag_handleMouseMove
         \<lparr>drag_block = on_grid_block, drag_blockId = ''1'', drag_startY = 100,
            drag_originalStartTime = Finite 600\<rparr> True \<lparr>button = 0, clientY = 107\<rparr>
       = BlockUpdate ''1''
           (no_updates\<lparr>upd_startTime := Some ''10:05'', upd_endTime := Some ''10:50''\<rparr>)"
proof -
  let ?cap = "\<lparr>drag_block = on_grid_block, drag_blockId = ''1'', drag_startY = 100,
                drag_originalStartTime = Finite 600\<rparr>"
  let ?down = "\<lparr>button = 0, clientY = 100\<rparr>" and ?move = "\<lparr>button = 0, clientY = 107\<rparr>"
  have s: "timeToMinutes (startTime on_grid_block) = Finite 600"
    and e: "timeToMinutes (endTime on_grid_block) = Finite 645"
    by (simp_all add: on_grid_block_def timeToMinutes_values)
  have i: "id' on_grid_block = ''1''"
    by (simp add: on_grid_block_def)
  have f: "find (\<lambda>b. id' b = ''1'') [on_grid_block] = Some on_grid_block"
    by (simp add: i)
  have d: "handleMouseDown [on_grid_block] ?down ''1'' = Some ?cap"
    by (simp add: handleMouseDown_def i s)
  have r: "(0 :: int) \<le> 600" "(600 :: int) \<le> 645" "(645 :: int) \<le> 1440" by simp_all
  from drag_move_postcondition [OF d f s e r, of ?move]
  obtain c where
    mv: "drag_handleMouseMove ?cap True ?move
       = BlockUpdate ''1''
           (no_updates\<lparr>upd_startTime := Some (minutesToTime (Finite c)),
              upd_endTime := Some (minutesToTime (Finite (c + (645 - 600))))\<rparr>)"
    and seven: "5 dvd (600 :: int) \<and> clientY ?move - clientY ?down = 7
                  \<and> 600 + 5 \<le> 1440 - (645 - (600 :: int)) \<longrightarrow> c = 600 + 5"
    by (elim exE conjE) (rule that, assumption+)
  from seven have c: "c = 605" by simp
  have "drag_handleMouseMove ?cap True ?move
       = BlockUpdate ''1''
           (no_updates\<lparr>upd_startTime := Some ''10:05'', upd_endTime := Some ''10:50''\<rparr>)"
    unfolding mv c by (simp add: more_clock_values)
  with d f s e show ?thesis by simp
qed

section \<open>The sweep of the repairer\<close>

lemma set_insert_by: "set (insert_by cmp x ys) = insert x (set ys)"
  by (induction ys) auto

lemma set_sort_by: "set (sort_by cmp xs) = set xs"
  by (induction xs) (simp_all add: sort_by_def set_insert_by)

lemma fixBlocks_repaired:
  assumes "\<forall>b \<in> set xs. timeToMinutes (startTime b) \<noteq> NaN"
      and "timeToMinutes lastEndTime = Finite l" and "0 \<le> l"
  shows "repaired_from index lastEndTime (fixBlocks index lastEndTime xs)"
  using assms
proof (induction xs arbitrary: index lastEndTime l)
  case Nil
  then show ?case by simp
next
  case (Cons b rest)
  from Cons.prems(1) obtain s0 where s0: "timeToMinutes (startTime b) = Finite s0"
    by (cases "timeToMinutes (startTime b)") auto
  define adj where "adj = (if s0 < l then lastEndTime else startTime b)"
  define s where "s = (if s0 < l then l else s0)"
  define d where "d = max (duration b) 15"
  define en where "en = minutesToTime (Finite (s + d))"
  have adj_s: "timeToMinutes adj = Finite s"
    by (simp add: adj_def s_def s0 Cons.prems(2))
  have ls: "l \<le> s" by (simp add: s_def)
  have nonneg: "0 \<le> s + d" using ls Cons.prems(3) by (simp add: d_def)
  have en_parse: "timeToMinutes en = Finite ((s + d) mod 1440)"
    unfolding en_def by (rule timeToMinutes_minutesToTime [OF nonneg])
  have step: "fixBlocks index lastEndTime (b # rest)
      = b\<lparr>id' := String_int (int index + 1), startTime := adj, endTime := en, duration := d\<rparr>
        # fixBlocks (index + 1) en rest"
    by (simp add: Let_def s0 Cons.prems(2) adj_def s_def d_def en_def)
  have rest: "repaired_from (index + 1) en (fixBlocks (index + 1) en rest)"
    by (rule Cons.IH [OF _ en_parse]) (use Cons.prems(1) in simp_all)
  show ?case
    unfolding step using rest ls Cons.prems(3)
    by (simp add: Cons.prems(2) adj_s d_def en_def)
qed

lemma repaired_fixed_point:
  assumes "repaired_from index lastEndTime xs"
  shows "fixBlocks index lastEndTime xs = xs"
  using assms
proof (induction xs arbitrary: index lastEndTime)
  case Nil
  then show ?case by simp
next
  case (Cons b rest)
  from Cons.prems obtain l s where
    l: "timeToMinutes lastEndTime = Finite l" and s: "timeToMinutes (startTime b) = Finite s"
    and ls: "l \<le> s" and i: "id' b = String_int (int index + 1)" and d: "15 \<le> duration b"
    and en: "endTime b = minutesToTime (Finite (s + duration b))"
    and rest: "repaired_from (index + 1) (endTime b) rest"
    by (auto split: jsnum.splits)
  have "fixBlocks (index + 1) (endTime b) rest = rest"
    by (rule Cons.IH [OF rest])
  moreover have "b\<lparr>id' := id' b, startTime := startTime b, endTime := endTime b,
                     duration := duration b\<rparr> = b" by simp
  ultimately show ?case
    using ls d by (simp add: Let_def l s i [symmetric] en [symmetric] max_def)
qed

lemma repaired_consecutive:
  assumes "repaired_from index lastEndTime xs" and "Suc i < length xs"
  shows "js_le (timeToMinutes (endTime (xs ! i))) (timeToMinutes (startTime (xs ! Suc i)))"
  using assms
proof (induction xs arbitrary: index lastEndTime i)
  case Nil
  then show ?case by simp
next
  case (Cons b rest)
  from Cons.prems(1) have rest: "repaired_from (index + 1) (endTime b) rest"
    by (auto split: jsnum.splits)
  show ?case
  proof (cases i)
    case 0
    with Cons.prems(2) obtain b' rest' where r: "rest = b' # rest'"
      by (cases rest) auto
    from rest show ?thesis unfolding r 0 by (auto split: jsnum.splits)
  next
    case (Suc j)
    with Cons.prems(2) have "Suc j < length rest" by simp
    from Cons.IH [OF rest this] show ?thesis by (simp add: Suc)
  qed
qed

lemma ascending_sort_by:
  assumes "ascending_starts xs"
  shows "sort_by compareStart xs = xs"
  using assms
proof (induction xs rule: ascending_starts.induct)
  case (1 a b rest)
  then have tail: "sort_by compareStart (b # rest) = b # rest" by simp
  from "1.prems" have "js_le (timeToMinutes (startTime a)) (timeToMinutes (startTime b))"
    by simp
  then have "\<not> js_gt (compareStart a b) (Finite 0)"
    by (cases "timeToMinutes (startTime a)"; cases "timeToMinutes (startTime b)")
       (simp_all add: compareStart_def)
  moreover have "sort_by compareStart (a # b # rest)
      = insert_by compareStart a (sort_by compareStart (b # rest))"
    by (simp add: sort_by_def)
  ultimately show ?case by (simp add: tail)
qed (simp_all add: sort_by_def)

lemma zero_clock: "timeToMinutes ''00:00'' = Finite 0"
  by (rule timeToMinutes_values)

lemma repair_repaired:
  assumes "\<forall>b \<in> set (blocks schedule). timeToMinutes (startTime b) \<noteq> NaN"
  shows "repaired_from 0 ''00:00'' (blocks (validateAndFixSchedule schedule originalInput))"
proof -
  have "\<forall>b \<in> set (sort_by compareStart (blocks schedule)). timeToMinutes (startTime b) \<noteq> NaN"
    using assms by (simp add: set_sort_by)
  then have "repaired_from 0 ''00:00''
      (fixBlocks 0 ''00:00'' (sort_by compareStart (blocks schedule)))"
    by (rule fixBlocks_repaired [OF _ zero_clock]) simp
  then show ?thesis by (simp add: validateAndFixSchedule_def Let_def)
qed

text \<open>
  Claim C3, as amended. If every start time of the input parses and the repaired list is
  still in ascending order of start time, repairing it again changes nothing. The order
  is ascending whenever no block other than the last is pushed to or past midnight
  (lemma \<open>no_wrap_ascending\<close>).
\<close>

theorem repair_idempotent_when_ascending:
  assumes "\<forall>b \<in> set (blocks schedule). timeToMinutes (startTime b) \<noteq> NaN"
      and "ascending_starts (blocks (validateAndFixSchedule schedule originalInput))"
  shows "validateAndFixSchedule (validateAndFixSchedule schedule originalInput) originalInput
       = validateAndFixSchedule schedule originalInput"
proof -
  let ?out = "blocks (validateAndFixSchedule schedule originalInput)"
  have "sort_by compareStart ?out = ?out"
    by (rule ascending_sort_by [OF assms(2)])
  moreover have "fixBlocks 0 ''00:00'' ?out = ?out"
    by (rule repaired_fixed_point [OF repair_repaired [OF assms(1)]])
  ultimately have "blocks (validateAndFixSchedule (validateAndFixSchedule schedule originalInput)
                     originalInput) = ?out"
    by (simp add: validateAndFixSchedule_def [of "validateAndFixSchedule schedule originalInput"]
          Let_def)
  then show ?thesis
    by (simp add: validateAndFixSchedule_def Let_def)
qed


lemma length_insert_by: "length (insert_by cmp x ys) = Suc (length ys)"
  by (induction ys) auto

lemma length_sort_by: "length (sort_by cmp xs) = length xs"
  by (induction xs) (simp_all add: sort_by_def length_insert_by)

lemma length_fixBlocks: "length (fixBlocks index lastEndTime xs) = length xs"
  by (induction xs arbitrary: index lastEndTime) (simp_all add: Let_def)

lemma length_repaired:
  "length (blocks (validateAndFixSchedule schedule originalInput)) = length (blocks schedule)"
  by (simp add: validateAndFixSchedule_def Let_def length_fixBlocks length_sort_by)

lemma more_timeToMinutes_values:
  "timeToMinutes ''01:00'' = Finite 60"
  "timeToMinutes ''13:00'' = Finite 780"
  by code_simp+

lemma tie_schedule_parses:
  "\<forall>b \<in> set (blocks tie_schedule). timeToMinutes (startTime b) \<noteq> NaN"
  by (simp add: tie_schedule_def scenario_B_first_def scenario_B_second_def timeToMinutes_values)

lemma tie_schedule_repaired:
  "map summary (blocks (validateAndFixSchedule tie_schedule ''''))
     = [(''1'', ''Review'', ''10:00'', ''11:00'', 60), (''2'', ''Call'', ''11:00'', ''11:30'', 30)]"
  by (simp add: tie_schedule_def scenario_B_first_def scenario_B_second_def summary_def
        validateAndFixSchedule_def sort_by_two compareStart_def Let_def
        timeToMinutes_values minutesToTime_values String_int_values)

lemma tie_schedule_ascending:
  "ascending_starts (blocks (validateAndFixSchedule tie_schedule ''''))"
proof -
  obtain a b where ab: "blocks (validateAndFixSchedule tie_schedule '''') = [a, b]"
    and "summary a = (''1'', ''Review'', ''10:00'', ''11:00'', 60)"
    and "summary b = (''2'', ''Call'', ''11:00'', ''11:30'', 30)"
    using tie_schedule_repaired by auto
  then have "startTime a = ''10:00''" "startTime b = ''11:00''"
    by (simp_all add: summary_def)
  then show ?thesis by (simp add: ab timeToMinutes_values)
qed

theorem repair_idempotent_when_ascending_witness:
  "timeToMinutes (startTime scenario_B_first) \<noteq> NaN
   \<and> timeToMinutes (startTime scenario_B_second) \<noteq> NaN
   \<and> ascending_starts (blocks (validateAndFixSchedule tie_schedule ''''))
   \<and> validateAndFixSchedule (validateAndFixSchedule tie_schedule '''') ''''
       = validateAndFixSchedule tie_schedule ''''"
proof -
  have p: "timeToMinutes (startTime scenario_B_first) \<noteq> NaN"
    "timeToMinutes (startTime scenario_B_second) \<noteq> NaN"
    using tie_schedule_parses by (simp_all add: tie_schedule_def)
  from repair_idempotent_when_ascending [OF tie_schedule_parses tie_schedule_ascending]
    tie_schedule_ascending p
  show ?thesis by simp
qed

lemma sort_by_three:
  "sort_by cmp [a, b, c] = insert_by cmp a (insert_by cmp b [c])"
  by (simp add: sort_by_def)

lemma wrap_schedule_once:
  "map summary (blocks (validateAndFixSchedule wrap_schedule ''''))
     = [(''1'', ''Workshop'', ''10:00'', ''23:00'', 780),
        (''2'', ''Film'', ''23:00'', ''01:00'', 120),
        (''3'', ''Lunch'', ''12:00'', ''13:00'', 60)]"
  by (simp add: wrap_schedule_def empty_schedule_def summary_def
        validateAndFixSchedule_def sort_by_three compareStart_def Let_def
        timeToMinutes_values more_timeToMinutes_values minutesToTime_values String_int_values)

lemma wrap_schedule_twice:
  "map summary (blocks (validateAndFixSchedule (validateAndFixSchedule wrap_schedule '''') ''''))
     = [(''1'', ''Workshop'', ''10:00'', ''23:00'', 780),
        (''2'', ''Lunch'', ''23:00'', ''00:00'', 60),
        (''3'', ''Film'', ''23:00'', ''01:00'', 120)]"
  by (simp add: wrap_schedule_def empty_schedule_def summary_def
        validateAndFixSchedule_def sort_by_three compareStart_def Let_def
        timeToMinutes_values more_timeToMinutes_values minutesToTime_values String_int_values)

text \<open>
  Claim C3 as stated fails. A 13-hour block from 10:00 pushes the block behind it to
  23:00 to 01:00; the sweep then compares the third block, at 12:00, with the wrapped end
  01:00 and leaves it in place. A second repair sorts the 12:00 block in front of the
  23:00 block and pushes it to 23:00 to 00:00: ids, times and order differ from the first
  result.
\<close>

theorem repair_not_idempotent_counterexample:
  "map summary (blocks (validateAndFixSchedule wrap_schedule ''''))
     = [(''1'', ''Workshop'', ''10:00'', ''23:00'', 780),
        (''2'', ''Film'', ''23:00'', ''01:00'', 120),
        (''3'', ''Lunch'', ''12:00'', ''13:00'', 60)]
   \<and> map summary
         (blocks (validateAndFixSchedule (validateAndFixSchedule wrap_schedule '''') ''''))
     = [(''1'', ''Workshop'', ''10:00'', ''23:00'', 780),
        (''2'', ''Lunch'', ''23:00'', ''00:00'', 60),
        (''3'', ''Film'', ''23:00'', ''01:00'', 120)]
   \<and> blocks (validateAndFixSchedule (validateAndFixSchedule wrap_schedule '''') '''')
       \<noteq> blocks (validateAndFixSchedule wrap_schedule '''')"
proof -
  have "map summary (blocks (validateAndFixSchedule (validateAndFixSchedule wrap_schedule '''') ''''))
      \<noteq> map summary (blocks (validateAndFixSchedule wrap_schedule ''''))"
    unfolding wrap_schedule_once wrap_schedule_twice by simp
  then have "blocks (validateAndFixSchedule (validateAndFixSchedule wrap_schedule '''') '''')
      \<noteq> blocks (validateAndFixSchedule wrap_schedule '''')"
    by auto
  then show ?thesis using wrap_schedule_once wrap_schedule_twice by simp
qed

lemma no_wrap_ascending:
  assumes "repaired_from index lastEndTime xs"
      and "\<forall>i. Suc i < length xs \<longrightarrow>
             js_lt (js_add (timeToMinutes (startTime (xs ! i))) (Finite (duration (xs ! i))))
                   (Finite 1440)"
  shows "ascending_starts xs"
  using assms
proof (induction xs arbitrary: index lastEndTime)
  case Nil
  then show ?case by simp
next
  case (Cons b rest)
  show ?case
  proof (cases rest)
    case Nil
    then show ?thesis by simp
  next
    case (Cons b' rest')
    from Cons.prems(1) obtain l s where
      s: "timeToMinutes (startTime b) = Finite s" and l: "0 \<le> l" "l \<le> s"
      and d: "15 \<le> duration b"
      and en: "endTime b = minutesToTime (Finite (s + duration b))"
      and rest: "repaired_from (index + 1) (endTime b) rest"
      by (auto split: jsnum.splits)
    from Cons.prems(2) [rule_format, of 0] have small: "s + duration b < 1440"
      by (simp add: Cons s)
    have "timeToMinutes (endTime b) = Finite ((s + duration b) mod 1440)"
      unfolding en using l d by (intro timeToMinutes_minutesToTime) simp
    also have "(s + duration b) mod 1440 = s + duration b"
      using small l d by simp
    finally have e: "timeToMinutes (endTime b) = Finite (s + duration b)" .
    from rest obtain s' where s': "timeToMinutes (startTime b') = Finite s'"
      and "s + duration b \<le> s'"
      unfolding Cons by (auto simp: e split: jsnum.splits)
    with d have first: "js_le (timeToMinutes (startTime b)) (timeToMinutes (startTime b'))"
      by (simp add: s s')
    have "\<forall>i. Suc i < length rest \<longrightarrow>
             js_lt (js_add (timeToMinutes (startTime (rest ! i))) (Finite (duration (rest ! i))))
                   (Finite 1440)"
    proof (intro allI impI)
      fix i assume "Suc i < length rest"
      then have "Suc (Suc i) < length (b # rest)" by simp
      from Cons.prems(2) [rule_format, OF this] show
        "js_lt (js_add (timeToMinutes (startTime (rest ! i))) (Finite (duration (rest ! i))))
               (Finite 1440)" by simp
    qed
    from Cons.IH [OF rest this] first show ?thesis by (simp add: Cons)
  qed
qed

lemma clock_difference_left:
  fixes s d :: int
  shows "((s + d) mod 1440 - s) mod 1440 = d mod 1440"
proof -
  have "((s + d) mod 1440 - s) mod 1440 = ((s + d) - s) mod 1440"
    by (rule mod_diff_left_eq)
  then show ?thesis by simp
qed

lemma repaired_duration_invariant:
  assumes "repaired_from index lastEndTime xs" and "b \<in> set xs" and "duration b < 1440"
  shows "duration_invariant b"
  using assms
proof (induction xs arbitrary: index lastEndTime)
  case Nil
  then show ?case by simp
next
  case (Cons a rest)
  from Cons.prems(1) obtain l s where
    s: "timeToMinutes (startTime a) = Finite s" and l: "0 \<le> l" "l \<le> s"
    and d: "15 \<le> duration a"
    and en: "endTime a = minutesToTime (Finite (s + duration a))"
    and rest: "repaired_from (index + 1) (endTime a) rest"
    by (auto split: jsnum.splits)
  show ?case
  proof (cases "b = a")
    case True
    have "timeToMinutes (endTime a) = Finite ((s + duration a) mod 1440)"
      unfolding en using l d by (intro timeToMinutes_minutesToTime) simp
    then show ?thesis
      using d Cons.prems(3) by (simp add: True duration_invariant_def s clock_difference_left)
  next
    case False
    with Cons.prems(2) have "b \<in> set rest" by simp
    from Cons.IH [OF rest this Cons.prems(3)] show ?thesis .
  qed
qed

text \<open>The repairer establishes the duration invariant for every block whose enforced
  duration is below a day.\<close>

lemma repair_duration_invariant:
  assumes "\<forall>b \<in> set (blocks schedule). timeToMinutes (startTime b) \<noteq> NaN"
      and "b \<in> set (blocks (validateAndFixSchedule schedule originalInput))"
      and "duration b < 1440"
  shows "duration_invariant b"
  by (rule repaired_duration_invariant [OF repair_repaired [OF assms(1)] assms(2,3)])

section \<open>Overlap after repair\<close>

lemma js_le_trans: "js_le a b \<Longrightarrow> js_le b c \<Longrightarrow> js_le a c"
  by (cases a; cases b; cases c) simp_all

lemma ascending_starts_nth:
  assumes "ascending_starts xs" and "i < j" and "j < length xs"
  shows "js_le (timeToMinutes (startTime (xs ! i))) (timeToMinutes (startTime (xs ! j)))"
  using assms
proof (induction xs arbitrary: i j rule: ascending_starts.induct)
  case (1 a b rest)
  from "1.prems"(1) have ab: "js_le (timeToMinutes (startTime a)) (timeToMinutes (startTime b))"
    and tail: "ascending_starts (b # rest)" by simp_all
  from "1.prems"(2) obtain j' where j: "j = Suc j'" by (cases j) auto
  show ?case
  proof (cases i)
    case 0
    show ?thesis
    proof (cases j')
      case 0
      with ab show ?thesis by (simp add: j \<open>i = 0\<close>)
    next
      case (Suc k)
      have "js_le (timeToMinutes (startTime ((b # rest) ! 0)))
                  (timeToMinutes (startTime ((b # rest) ! j')))"
        using "1.prems"(3) by (intro "1.IH" [OF tail]) (simp_all add: j Suc)
      with ab show ?thesis by (auto simp: j \<open>i = 0\<close> intro: js_le_trans)
    qed
  next
    case (Suc i')
    have "js_le (timeToMinutes (startTime ((b # rest) ! i')))
                (timeToMinutes (startTime ((b # rest) ! j')))"
      using "1.prems"(2,3) by (intro "1.IH" [OF tail]) (simp_all add: j Suc)
    then show ?thesis by (simp add: j Suc)
  qed
qed simp_all

lemma repaired_pairwise:
  assumes "repaired_from index lastEndTime xs" and "ascending_starts xs"
      and "i < j" and "j < length xs"
  shows "js_le (timeToMinutes (endTime (xs ! i))) (timeToMinutes (startTime (xs ! j)))"
proof -
  from assms(3,4) have si: "Suc i < length xs" by simp
  have next_start: "js_le (timeToMinutes (endTime (xs ! i))) (timeToMinutes (startTime (xs ! Suc i)))"
    by (rule repaired_consecutive [OF assms(1) si])
  show ?thesis
  proof (cases "j = Suc i")
    case True
    with next_start show ?thesis by simp
  next
    case False
    with assms(3) have "Suc i < j" by simp
    from ascending_starts_nth [OF assms(2) this assms(4)] next_start
    show ?thesis by (rule js_le_trans [rotated])
  qed
qed

lemma HHMM_parses: "is_HHMM t \<Longrightarrow> timeToMinutes t \<noteq> NaN"
  using timeToMinutes_HHMM [of t] by auto

text \<open>
  Claim C2, as amended. If every start time of the input is a well-formed \<open>HH:MM\<close>
  string (durations are whole numbers of minutes), then in the output of the repairer
  every block ends, in minutes of the day, no later than the next block starts. If
  moreover no block other than the last runs to or past midnight, every block ends no
  later than every later block starts: the output is then mutually non-overlapping.
\<close>

theorem no_residual_overlap:
  assumes "\<forall>b \<in> set (blocks schedule). is_HHMM (startTime b)"
  shows "(\<forall>i. Suc i < length (blocks (validateAndFixSchedule schedule originalInput)) \<longrightarrow>
            js_le (timeToMinutes (endTime (blocks (validateAndFixSchedule schedule originalInput) ! i)))
                  (timeToMinutes
                     (startTime (blocks (validateAndFixSchedule schedule originalInput) ! Suc i))))
       \<and> ((\<forall>i. Suc i < length (blocks (validateAndFixSchedule schedule originalInput)) \<longrightarrow>
              js_lt (js_add
                       (timeToMinutes
                          (startTime (blocks (validateAndFixSchedule schedule originalInput) ! i)))
                       (Finite (duration (blocks (validateAndFixSchedule schedule originalInput) ! i))))
                    (Finite 1440))
            \<longrightarrow> (\<forall>i j. i < j \<and> j < length (blocks (validateAndFixSchedule schedule originalInput))
                   \<longrightarrow> js_le (timeToMinutes
                                (endTime (blocks (validateAndFixSchedule schedule originalInput) ! i)))
                             (timeToMinutes
                                (startTime (blocks (validateAndFixSchedule schedule originalInput) ! j)))))"
proof -
  let ?out = "blocks (validateAndFixSchedule schedule originalInput)"
  from assms have parses: "\<forall>b \<in> set (blocks schedule). timeToMinutes (startTime b) \<noteq> NaN"
    by (simp add: HHMM_parses)
  have rep: "repaired_from 0 ''00:00'' ?out" by (rule repair_repaired [OF parses])
  have consecutive: "\<forall>i. Suc i < length ?out \<longrightarrow>
      js_le (timeToMinutes (endTime (?out ! i))) (timeToMinutes (startTime (?out ! Suc i)))"
    using repaired_consecutive [OF rep] by blast
  have pairwise: "\<forall>i j. i < j \<and> j < length ?out \<longrightarrow>
      js_le (timeToMinutes (endTime (?out ! i))) (timeToMinutes (startTime (?out ! j)))"
    if nowrap: "\<forall>i. Suc i < length ?out \<longrightarrow>
      js_lt (js_add (timeToMinutes (startTime (?out ! i))) (Finite (duration (?out ! i))))
            (Finite 1440)"
  proof -
    have "ascending_starts ?out" by (rule no_wrap_ascending [OF rep nowrap])
    with repaired_pairwise [OF rep] show ?thesis by blast
  qed
  from consecutive pairwise show ?thesis by blast
qed

lemma tie_schedule_no_wrap:
  "\<forall>i. Suc i < length (blocks (validateAndFixSchedule tie_schedule '''')) \<longrightarrow>
     js_lt (js_add (timeToMinutes (startTime (blocks (validateAndFixSchedule tie_schedule '''') ! i)))
              (Finite (duration (blocks (validateAndFixSchedule tie_schedule '''') ! i))))
           (Finite 1440)"
proof -
  obtain a b where ab: "blocks (validateAndFixSchedule tie_schedule '''') = [a, b]"
    and "summary a = (''1'', ''Review'', ''10:00'', ''11:00'', 60)"
    using tie_schedule_repaired by auto
  then have "startTime a = ''10:00''" "duration a = 60"
    by (simp_all add: summary_def)
  then show ?thesis by (simp add: ab timeToMinutes_values)
qed

lemma tie_schedule_well_formed: "\<forall>b \<in> set (blocks tie_schedule). is_HHMM (startTime b)"
  by code_simp

theorem no_residual_overlap_witness:
  "is_HHMM (startTime scenario_B_first)
   \<and> is_HHMM (startTime scenario_B_second)
   \<and> Suc 0 < length (blocks (validateAndFixSchedule tie_schedule ''''))
   \<and> js_lt (js_add (timeToMinutes (startTime (blocks (validateAndFixSchedule tie_schedule '''') ! 0)))
              (Finite (duration (blocks (validateAndFixSchedule tie_schedule '''') ! 0))))
           (Finite 1440)
   \<and> js_le (timeToMinutes (endTime (blocks (validateAndFixSchedule tie_schedule '''') ! 0)))
            (timeToMinutes (startTime (blocks (validateAndFixSchedule tie_schedule '''') ! Suc 0)))"
proof -
  have len: "Suc 0 < length (blocks (validateAndFixSchedule tie_schedule ''''))"
    by (simp add: length_repaired) (simp add: tie_schedule_def)
  have p: "is_HHMM (startTime scenario_B_first)" "is_HHMM (startTime scenario_B_second)"
    using tie_schedule_well_formed by (simp_all add: tie_schedule_def)
  from no_residual_overlap [OF tie_schedule_well_formed, of "''''"] tie_schedule_no_wrap
  have "\<forall>i j. i < j \<and> j < length (blocks (validateAndFixSchedule tie_schedule ''''))
      \<longrightarrow> js_le (timeToMinutes (endTime (blocks (validateAndFixSchedule tie_schedule '''') ! i)))
                (timeToMinutes (startTime (blocks (validateAndFixSchedule tie_schedule '''') ! j)))"
    by blast
  from this [rule_format, of 0 "Suc 0"] len
  have "js_le (timeToMinutes (endTime (blocks (validateAndFixSchedule tie_schedule '''') ! 0)))
            (timeToMinutes (startTime (blocks (validateAndFixSchedule tie_schedule '''') ! Suc 0)))"
    by simp
  with len p tie_schedule_no_wrap [rule_format, OF len] show ?thesis by simp
qed

lemma more_evening_values:
  "timeToMinutes ''09:00'' = Finite 540"
  "timeToMinutes ''19:00'' = Finite 1140"
  "timeToMinutes ''21:00'' = Finite 1260"
  "timeToMinutes ''22:00'' = Finite 1320"
  "timeToMinutes ''00:30'' = Finite 30"
  "minutesToTime (Finite 1470) = ''00:30''"
  "minutesToTime (Finite 1320) = ''22:00''"
  by code_simp+

lemma evening_schedule_once:
  "map summary (blocks (validateAndFixSchedule evening_schedule ''''))
     = [(''1'', ''Work'', ''09:00'', ''23:00'', 840),
        (''2'', ''Dinner'', ''23:00'', ''00:30'', 90),
        (''3'', ''Reading'', ''21:00'', ''22:00'', 60)]"
  by (simp add: evening_schedule_def empty_schedule_def summary_def
        validateAndFixSchedule_def sort_by_three compareStart_def Let_def
        timeToMinutes_values more_evening_values minutesToTime_values String_int_values)

lemma unparsed_schedule_once:
  "map summary (blocks (validateAndFixSchedule unparsed_schedule ''''))
     = [(''1'', ''Lunch'', ''noon'', ''NaN:NaN'', 60),
        (''2'', ''Call'', ''13:00'', ''13:30'', 30)]"
  "\<not> js_le (timeToMinutes (endTime (blocks (validateAndFixSchedule unparsed_schedule '''') ! 0)))
            (timeToMinutes (startTime (blocks (validateAndFixSchedule unparsed_schedule '''') ! 1)))"
  by code_simp+

text \<open>
  Claim C2 as stated fails in its reading as mutual non-overlap. A 14-hour block from
  09:00 pushes dinner to 23:00 to 00:30; the sweep compares the next start, 21:00, with
  the wrapped end 00:30 and keeps the reading hour at 21:00 to 22:00, inside the first
  block. Each of the two blocks starts before the other ends. The inequality between
  neighbours fails as well when a start time does not parse: a lunch that starts at
  \<open>noon\<close> receives the end \<open>NaN:NaN\<close>, and no comparison with it holds.
\<close>

theorem residual_overlap_counterexample:
  "map summary (blocks (validateAndFixSchedule evening_schedule ''''))
     = [(''1'', ''Work'', ''09:00'', ''23:00'', 840),
        (''2'', ''Dinner'', ''23:00'', ''00:30'', 90),
        (''3'', ''Reading'', ''21:00'', ''22:00'', 60)]
   \<and> js_lt (timeToMinutes (startTime (blocks (validateAndFixSchedule evening_schedule '''') ! 2)))
            (timeToMinutes (endTime (blocks (validateAndFixSchedule evening_schedule '''') ! 0)))
   \<and> js_lt (timeToMinutes (startTime (blocks (validateAndFixSchedule evening_schedule '''') ! 0)))
            (timeToMinutes (endTime (blocks (validateAndFixSchedule evening_schedule '''') ! 2)))
   \<and> map summary (blocks (validateAndFixSchedule unparsed_schedule ''''))
       = [(''1'', ''Lunch'', ''noon'', ''NaN:NaN'', 60),
          (''2'', ''Call'', ''13:00'', ''13:30'', 30)]
   \<and> \<not> js_le (timeToMinutes (endTime (blocks (validateAndFixSchedule unparsed_schedule '''') ! 0)))
              (timeToMinutes (startTime (blocks (validateAndFixSchedule unparsed_schedule '''') ! 1)))"
proof -
  obtain a b c where out: "blocks (validateAndFixSchedule evening_schedule '''') = [a, b, c]"
    and "summary a = (''1'', ''Work'', ''09:00'', ''23:00'', 840)"
    and "summary c = (''3'', ''Reading'', ''21:00'', ''22:00'', 60)"
    using evening_schedule_once by auto
  then have "startTime a = ''09:00''" "endTime a = ''23:00''"
    "startTime c = ''21:00''" "endTime c = ''22:00''"
    by (simp_all add: summary_def)
  then show ?thesis
    using evening_schedule_once unparsed_schedule_once
    by (simp add: out timeToMinutes_values more_evening_values)
qed

section \<open>The layout loop keeps its invariant\<close>

lemma proper_toLayoutEvent:
  assumes "timeToMinutes (startTime b) \<noteq> NaN" and "timeToMinutes (endTime b) \<noteq> NaN"
  shows "proper_event (toLayoutEvent b)"
proof -
  from assms obtain s t where "timeToMinutes (startTime b) = Finite s"
    "timeToMinutes (endTime b) = Finite t"
    by (cases "timeToMinutes (startTime b)"; cases "timeToMinutes (endTime b)") auto
  then show ?thesis
    by (simp add: proper_event_def toLayoutEvent_def Let_def)
qed

lemma proper_cases:
  assumes "proper_event e"
  obtains s t where "start e = Finite s" "end' e = Finite t" "s < t"
  using assms by (auto simp: proper_event_def split: jsnum.splits)

lemma compareEvents_gt:
  assumes "proper_event a" and "proper_event b" and "js_gt (compareEvents a b) (Finite 0)"
  shows "js_le (start b) (start a)"
proof -
  from assms(1) obtain s t where a: "start a = Finite s" "end' a = Finite t" by (rule proper_cases)
  from assms(2) obtain s' t' where b: "start b = Finite s'" "end' b = Finite t'" by (rule proper_cases)
  from assms(3) show ?thesis
    by (simp add: compareEvents_def a b split: if_splits)
qed

lemma compareEvents_not_gt:
  assumes "proper_event a" and "proper_event b" and "\<not> js_gt (compareEvents a b) (Finite 0)"
  shows "js_le (start a) (start b)"
proof -
  from assms(1) obtain s t where a: "start a = Finite s" "end' a = Finite t" by (rule proper_cases)
  from assms(2) obtain s' t' where b: "start b = Finite s'" "end' b = Finite t'" by (rule proper_cases)
  from assms(3) show ?thesis
    by (simp add: compareEvents_def a b split: if_splits)
qed

lemma sorted_insert_by:
  assumes "proper_event x" and "\<forall>y \<in> set ys. proper_event y"
      and "sorted_wrt (\<lambda>a b. js_le (start a) (start b)) ys"
  shows "sorted_wrt (\<lambda>a b. js_le (start a) (start b)) (insert_by compareEvents x ys)"
  using assms
proof (induction ys)
  case Nil
  then show ?case by simp
next
  case (Cons y ys)
  show ?case
  proof (cases "js_gt (compareEvents x y) (Finite 0)")
    case True
    then have yx: "js_le (start y) (start x)"
      using Cons.prems by (intro compareEvents_gt) simp_all
    have "sorted_wrt (\<lambda>a b. js_le (start a) (start b)) (insert_by compareEvents x ys)"
      using Cons.prems by (intro Cons.IH) simp_all
    with yx Cons.prems(3) True show ?thesis by (simp add: set_insert_by)
  next
    case False
    then have xy: "js_le (start x) (start y)"
      using Cons.prems by (intro compareEvents_not_gt) simp_all
    have "\<forall>z \<in> set ys. js_le (start x) (start z)"
      using Cons.prems(3) xy by (auto intro: js_le_trans)
    with xy Cons.prems(3) False show ?thesis by simp
  qed
qed

lemma sorted_sort_by:
  assumes "\<forall>y \<in> set xs. proper_event y"
  shows "sorted_wrt (\<lambda>a b. js_le (start a) (start b)) (sort_by compareEvents xs)"
  using assms
proof (induction xs)
  case Nil
  then show ?case by (simp add: sort_by_def)
next
  case (Cons x xs)
  have "sort_by compareEvents (x # xs) = insert_by compareEvents x (sort_by compareEvents xs)"
    by (simp add: sort_by_def)
  moreover have "sorted_wrt (\<lambda>a b. js_le (start a) (start b))
      (insert_by compareEvents x (sort_by compareEvents xs))"
    using Cons by (intro sorted_insert_by) (simp_all add: set_sort_by)
  ultimately show ?case by simp
qed

lemma sortedEvents_proper:
  assumes "\<forall>b \<in> set events. timeToMinutes (startTime b) \<noteq> NaN \<and> timeToMinutes (endTime b) \<noteq> NaN"
  shows "\<forall>e \<in> set (sortedEvents events). proper_event e"
  using assms by (auto simp: sortedEvents_def set_sort_by proper_toLayoutEvent)

lemma sortedEvents_sorted:
  assumes "\<forall>b \<in> set events. timeToMinutes (startTime b) \<noteq> NaN \<and> timeToMinutes (endTime b) \<noteq> NaN"
  shows "sorted_wrt (\<lambda>a b. js_le (start a) (start b)) (sortedEvents events)"
  unfolding sortedEvents_def using assms
  by (intro sorted_sort_by) (auto simp: proper_toLayoutEvent)


lemma find_group_None:
  assumes "find_group evs i gs c = None"
  shows "\<forall>g \<in> set gs. \<forall>j \<in> set g. \<not> overlaps (evs ! i) (evs ! j)"
  using assms
  by (induction gs arbitrary: c) (auto simp: list_ex_iff split: if_splits)

lemma find_group_Some:
  assumes "find_group evs i gs c = Some r"
  shows "\<exists>k < length gs. r = c + k \<and> (\<exists>j \<in> set (gs ! k). overlaps (evs ! i) (evs ! j))"
  using assms
proof (induction gs arbitrary: c)
  case Nil
  then show ?case by simp
next
  case (Cons g gs)
  show ?case
  proof (cases "list_ex (\<lambda>j. overlaps (evs ! i) (evs ! j)) g")
    case True
    with Cons.prems have "r = c" by simp
    with True show ?thesis by (auto simp: list_ex_iff intro!: exI [of _ 0])
  next
    case False
    with Cons.prems have "find_group evs i gs (c + 1) = Some r" by simp
    from Cons.IH [OF this] obtain k where "k < length gs" "r = c + 1 + k"
      "\<exists>j \<in> set (gs ! k). overlaps (evs ! i) (evs ! j)" by blast
    then show ?thesis by (auto intro!: exI [of _ "Suc k"])
  qed
qed

lemma first_free_lane_free: "first_free_lane used l \<notin> set used"
proof (induction used l rule: first_free_lane.induct)
  case (1 usedLanes l)
  then show ?case by (simp add: first_free_lane.simps [of usedLanes l])
qed



lemma sorted_start_nth:
  assumes "sorted_wrt (\<lambda>a b. js_le (start a) (start b)) evs" and "i < j" and "j < length evs"
  shows "js_le (start (evs ! i)) (start (evs ! j))"
  using assms by (simp add: sorted_wrt_iff_nth_less)

lemma before_not_overlaps:
  assumes "before evs i j"
  shows "\<not> overlaps (evs ! i) (evs ! j)" and "\<not> overlaps (evs ! j) (evs ! i)"
  using assms
  by (cases "end' (evs ! i)"; cases "start (evs ! j)"; simp add: before_def overlaps_def)+

lemma not_before_self:
  assumes "proper_event (evs ! i)"
  shows "\<not> before evs i i"
  using assms by (auto simp: before_def elim!: proper_cases)

lemma earlier_not_overlapping_before:
  assumes proper: "\<forall>e \<in> set evs. proper_event e"
      and sorted: "sorted_wrt (\<lambda>a b. js_le (start a) (start b)) evs"
      and "j < k" and "k < length evs" and "\<not> overlaps (evs ! k) (evs ! j)"
  shows "before evs j k"
proof -
  from assms(3,4) have "evs ! j \<in> set evs" "evs ! k \<in> set evs" by simp_all
  with proper have pj: "proper_event (evs ! j)" and pk: "proper_event (evs ! k)" by blast+
  from pj obtain sj tj where j: "start (evs ! j) = Finite sj" "end' (evs ! j) = Finite tj" "sj < tj"
    by (rule proper_cases)
  from pk obtain sk tk where k: "start (evs ! k) = Finite sk" "end' (evs ! k) = Finite tk" "sk < tk"
    by (rule proper_cases)
  from sorted_start_nth [OF sorted assms(3,4)] have "sj \<le> sk" by (simp add: j k)
  with assms(5) j k show ?thesis by (simp add: overlaps_def before_def)
qed

lemma before_later:
  assumes sorted: "sorted_wrt (\<lambda>a b. js_le (start a) (start b)) evs"
      and "before evs i j" and "j < k" and "k < length evs"
  shows "before evs i k"
  using sorted_start_nth [OF sorted assms(3,4)] assms(2)
  unfolding before_def by (rule js_le_trans [rotated])

lemma overlap_before_contradiction:
  assumes sorted: "sorted_wrt (\<lambda>a b. js_le (start a) (start b)) evs"
      and "overlaps (evs ! k) (evs ! j0)" and "before evs j0 j" and "j < k" and "k < length evs"
  shows False
proof -
  have "before evs j0 k" by (rule before_later [OF sorted assms(3,4,5)])
  from before_not_overlaps(2) [OF this] assms(2) show False by simp
qed

lemma inj_on_upd_other: "inj_on f A \<Longrightarrow> k \<notin> A \<Longrightarrow> inj_on (f(k := v)) A"
  by (auto simp: inj_on_def)

lemma inj_on_upd_new:
  "inj_on f A \<Longrightarrow> k \<notin> A \<Longrightarrow> v \<notin> f ` A \<Longrightarrow> inj_on (f(k := v)) (insert k A)"
  by (auto simp: inj_on_def)

lemma place_event_inv:
  assumes inv: "layout_inv evs k st" and k: "k < length evs"
      and proper: "\<forall>e \<in> set evs. proper_event e"
      and sorted: "sorted_wrt (\<lambda>a b. js_le (start a) (start b)) evs"
  shows "layout_inv evs (Suc k) (place_event evs st k)"
proof -
  let ?P = "\<lambda>g h. \<forall>i \<in> set g. \<forall>j \<in> set h. before evs i j"
  from inv have I1: "\<forall>g \<in> set (groups st). g \<noteq> [] \<and> (\<forall>j \<in> set g. j < k) \<and> inj_on (lanes st) (set g)"
    and I2: "\<forall>j < k. \<exists>g \<in> set (groups st). j \<in> set g"
    and I3: "sorted_wrt ?P (groups st)"
    and I4: "\<forall>g \<in> set (groups st). \<forall>m < length g. 0 < m \<longrightarrow>
               (\<exists>m' < m. overlaps (evs ! (g ! m)) (evs ! (g ! m')))"
    by (simp_all add: layout_inv_def)
  have notin: "k \<notin> set g" if "g \<in> set (groups st)" for g
    using I1 that by auto
  show ?thesis
  proof (cases "find_group evs k (groups st) 0")
    case None
    have st': "place_event evs st k = \<lparr>lanes = (lanes st)(k := 0), groups = groups st @ [[k]]\<rparr>"
      by (simp add: place_event_def None)
    have bef: "before evs j k" if "g \<in> set (groups st)" "j \<in> set g" for g j
    proof -
      from I1 that have "j < k" by blast
      moreover from find_group_None [OF None] that have "\<not> overlaps (evs ! k) (evs ! j)" by blast
      ultimately show ?thesis
        using earlier_not_overlapping_before [OF proper sorted _ k] by blast
    qed
    have A: "\<forall>g \<in> set (groups st @ [[k]]).
        g \<noteq> [] \<and> (\<forall>j \<in> set g. j < Suc k) \<and> inj_on ((lanes st)(k := 0)) (set g)"
      using I1 notin by (auto intro: inj_on_upd_other less_SucI)
    have B: "\<forall>j < Suc k. \<exists>g \<in> set (groups st @ [[k]]). j \<in> set g"
      using I2 by (auto simp: less_Suc_eq)
    have C: "sorted_wrt ?P (groups st @ [[k]])"
      using I3 bef by (simp add: sorted_wrt_append)
    have D: "\<forall>g \<in> set (groups st @ [[k]]). \<forall>m < length g. 0 < m \<longrightarrow>
               (\<exists>m' < m. overlaps (evs ! (g ! m)) (evs ! (g ! m')))"
      using I4 by auto
    from A B C D show ?thesis unfolding st' layout_inv_def by simp
  next
    case (Some r)
    from find_group_Some [OF Some] obtain j0 where r: "r < length (groups st)"
      and j0: "j0 \<in> set (groups st ! r)" and ov: "overlaps (evs ! k) (evs ! j0)"
      by auto
    have last: "Suc r = length (groups st)"
    proof (rule ccontr)
      assume "Suc r \<noteq> length (groups st)"
      with r have sr: "Suc r < length (groups st)" by simp
      then have "groups st ! Suc r \<in> set (groups st)" by simp
      with I1 obtain j where j: "j \<in> set (groups st ! Suc r)" "j < k"
        by (cases "groups st ! Suc r") auto
      have "?P (groups st ! r) (groups st ! Suc r)"
        using sorted_wrt_nth_less [OF I3, of r "Suc r"] sr by simp
      with j0 j(1) have "before evs j0 j" by blast
      from overlap_before_contradiction [OF sorted ov this j(2) k] show False .
    qed
    define front where "front = take r (groups st)"
    define lg where "lg = groups st ! r"
    have gs: "groups st = front @ [lg]"
      using take_Suc_conv_app_nth [OF r] last by (simp add: front_def lg_def)
    have rlen: "r = length front" using r by (simp add: front_def)
    define l where "l = first_free_lane (map (lanes st) lg) 0"
    have upd: "(groups st)[r := groups st ! r @ [k]] = front @ [lg @ [k]]"
    proof -
      have "(front @ [lg])[length front := (front @ [lg]) ! length front @ [k]]
          = front @ [lg @ [k]]" by simp
      then show ?thesis unfolding gs [symmetric] rlen [symmetric] .
    qed
    have "place_event evs st k
        = \<lparr>lanes = (lanes st)(k := first_free_lane (map (lanes st) (groups st ! r)) 0),
           groups = (groups st)[r := groups st ! r @ [k]]\<rparr>"
      by (simp add: place_event_def Some Let_def)
    then have st': "place_event evs st k
        = \<lparr>lanes = (lanes st)(k := l), groups = front @ [lg @ [k]]\<rparr>"
      unfolding upd by (simp add: l_def lg_def)
    have lfree: "l \<notin> lanes st ` set lg"
      using first_free_lane_free [of "map (lanes st) lg" 0] by (simp add: l_def)
    have j0lg: "j0 \<in> set lg" using j0 by (simp add: lg_def)
    have j0k: "j0 < k" using I1 j0lg by (auto simp: gs)
    have lgI: "lg \<noteq> []" "\<forall>j \<in> set lg. j < k" "inj_on (lanes st) (set lg)" "k \<notin> set lg"
      using I1 by (auto simp: gs)
    have frontI: "\<forall>g \<in> set front. g \<noteq> [] \<and> (\<forall>j \<in> set g. j < k) \<and> inj_on (lanes st) (set g)"
      using I1 by (simp add: gs)
    have A: "\<forall>g \<in> set (front @ [lg @ [k]]).
        g \<noteq> [] \<and> (\<forall>j \<in> set g. j < Suc k) \<and> inj_on ((lanes st)(k := l)) (set g)"
    proof
      fix g assume "g \<in> set (front @ [lg @ [k]])"
      then consider "g \<in> set front" | "g = lg @ [k]" by auto
      then show "g \<noteq> [] \<and> (\<forall>j \<in> set g. j < Suc k) \<and> inj_on ((lanes st)(k := l)) (set g)"
      proof cases
        case 1
        with frontI have "g \<noteq> []" "\<forall>j \<in> set g. j < k" "inj_on (lanes st) (set g)" by blast+
        moreover from this(2) have "k \<notin> set g" by auto
        ultimately show ?thesis by (auto intro: inj_on_upd_other less_SucI)
      next
        case 2
        have "inj_on ((lanes st)(k := l)) (insert k (set lg))"
          by (rule inj_on_upd_new [OF lgI(3) lgI(4) lfree])
        with lgI(2) show ?thesis by (auto simp: 2 intro: less_SucI)
      qed
    qed
    have B: "\<forall>j < Suc k. \<exists>g \<in> set (front @ [lg @ [k]]). j \<in> set g"
    proof (intro allI impI)
      fix j assume "j < Suc k"
      show "\<exists>g \<in> set (front @ [lg @ [k]]). j \<in> set g"
      proof (cases "j = k")
        case True
        then show ?thesis by auto
      next
        case False
        with \<open>j < Suc k\<close> have "j < k" by simp
        with I2 obtain g where "g \<in> set (front @ [lg])" "j \<in> set g" unfolding gs by blast
        then show ?thesis by auto
      qed
    qed
    have I3': "sorted_wrt ?P front" "\<forall>g \<in> set front. ?P g lg"
      using I3 by (simp_all add: gs sorted_wrt_append)
    have C: "sorted_wrt ?P (front @ [lg @ [k]])"
    proof -
      have "?P g (lg @ [k])" if g: "g \<in> set front" for g
      proof (intro ballI)
        fix i j assume i: "i \<in> set g" and j: "j \<in> set (lg @ [k])"
        from I3'(2) g i j0lg have "before evs i j0" by blast
        then have "before evs i k" by (rule before_later [OF sorted _ j0k k])
        with I3'(2) g i j show "before evs i j" by auto
      qed
      with I3'(1) show ?thesis by (simp add: sorted_wrt_append)
    qed
    have D: "\<forall>g \<in> set (front @ [lg @ [k]]). \<forall>m < length g. 0 < m \<longrightarrow>
               (\<exists>m' < m. overlaps (evs ! (g ! m)) (evs ! (g ! m')))"
    proof (intro ballI allI impI)
      fix g m assume g: "g \<in> set (front @ [lg @ [k]])" and m: "m < length g" "0 < m"
      from g consider "g \<in> set front" | "g = lg @ [k]" by auto
      then show "\<exists>m' < m. overlaps (evs ! (g ! m)) (evs ! (g ! m'))"
      proof cases
        case 1
        then have "g \<in> set (groups st)" by (simp add: gs)
        with I4 m show ?thesis by blast
      next
        case 2
        show ?thesis
        proof (cases "m < length lg")
          case True
          have "lg \<in> set (groups st)" by (simp add: gs)
          with I4 True m(2) obtain m' where m': "m' < m" "overlaps (evs ! (lg ! m)) (evs ! (lg ! m'))"
            by blast
          with True show ?thesis by (auto simp: 2 nth_append intro!: exI [of _ m'])
        next
          case False
          with m(1) have mk: "m = length lg" by (simp add: 2)
          from j0lg obtain m' where m': "m' < length lg" "lg ! m' = j0"
            by (auto simp: in_set_conv_nth)
          with ov show ?thesis by (auto simp: 2 mk nth_append intro!: exI [of _ m'])
        qed
      qed
    qed
    from A B C D show ?thesis unfolding st' layout_inv_def by simp
  qed
qed

lemma assign_lanes_prefix_inv:
  assumes proper: "\<forall>e \<in> set evs. proper_event e"
      and sorted: "sorted_wrt (\<lambda>a b. js_le (start a) (start b)) evs"
      and "k \<le> length evs"
  shows "layout_inv evs k (foldl (place_event evs) \<lparr>lanes = (\<lambda>_. 0), groups = []\<rparr> [0..<k])"
  using assms(3)
proof (induction k)
  case 0
  then show ?case by (simp add: layout_inv_def)
next
  case (Suc k)
  then have "layout_inv evs k (foldl (place_event evs) \<lparr>lanes = (\<lambda>_. 0), groups = []\<rparr> [0..<k])"
    and "k < length evs" by simp_all
  from place_event_inv [OF this proper sorted] show ?case by simp
qed

lemma assign_lanes_inv:
  assumes "\<forall>e \<in> set evs. proper_event e"
      and "sorted_wrt (\<lambda>a b. js_le (start a) (start b)) evs"
  shows "layout_inv evs (length evs) (assign_lanes evs)"
  unfolding assign_lanes_def by (rule assign_lanes_prefix_inv [OF assms]) simp

section \<open>Lanes and lane counts\<close>

lemma foldl_upd_const:
  "foldl (\<lambda>cs i. cs(i := v)) c g i = (if i \<in> set g then v else c i)"
  by (induction g arbitrary: c) auto

lemma set_lane_count_apply:
  "set_lane_count ls c g i = (if i \<in> set g then Max (set (map ls g)) + 1 else c i)"
  by (simp add: set_lane_count_def Let_def foldl_upd_const)

lemma lane_counts_outside:
  assumes "\<forall>h \<in> set gs. i \<notin> set h"
  shows "foldl (set_lane_count ls) c gs i = c i"
  using assms by (induction gs arbitrary: c) (simp_all add: set_lane_count_apply)

lemma lane_counts_group:
  assumes "sorted_wrt (\<lambda>g h. set g \<inter> set h = {}) gs" and "g \<in> set gs" and "i \<in> set g"
  shows "foldl (set_lane_count ls) c gs i = Max (set (map ls g)) + 1"
  using assms
proof (induction gs arbitrary: c)
  case Nil
  then show ?case by simp
next
  case (Cons h t)
  show ?case
  proof (cases "i \<in> set h")
    case True
    have out: "\<forall>h' \<in> set t. i \<notin> set h'" using Cons.prems(1) True by auto
    have gh: "g = h"
    proof (rule ccontr)
      assume "g \<noteq> h"
      with Cons.prems(2) have "g \<in> set t" by simp
      with out Cons.prems(3) show False by blast
    qed
    have "foldl (set_lane_count ls) c (h # t) i
        = foldl (set_lane_count ls) (set_lane_count ls c h) t i" by simp
    also have "\<dots> = set_lane_count ls c h i" by (rule lane_counts_outside [OF out])
    also have "\<dots> = Max (set (map ls g)) + 1"
      using True by (simp only: set_lane_count_apply gh if_True)
    finally show ?thesis .
  next
    case False
    with Cons.prems(2,3) have "g \<in> set t" by auto
    with Cons.IH [of "set_lane_count ls c h"] Cons.prems(1,3) show ?thesis by simp
  qed
qed

lemma groups_disjoint:
  assumes inv: "layout_inv evs (length evs) st" and proper: "\<forall>e \<in> set evs. proper_event e"
  shows "sorted_wrt (\<lambda>g h. set g \<inter> set h = {}) (groups st)"
proof -
  from inv have I1: "\<forall>g \<in> set (groups st). \<forall>j \<in> set g. j < length evs"
    and I3: "sorted_wrt (\<lambda>g h. \<forall>i \<in> set g. \<forall>j \<in> set h. before evs i j) (groups st)"
    by (simp_all add: layout_inv_def)
  show ?thesis
  proof (rule sorted_wrt_mono_rel [OF _ I3])
    fix g h assume g: "g \<in> set (groups st)" and h: "h \<in> set (groups st)"
      and b: "\<forall>i \<in> set g. \<forall>j \<in> set h. before evs i j"
    show "set g \<inter> set h = {}"
    proof (rule ccontr)
      assume "set g \<inter> set h \<noteq> {}"
      then obtain i where i: "i \<in> set g" "i \<in> set h" by auto
      with b have "before evs i i" by blast
      moreover from I1 g i(1) have "i < length evs" by blast
      then have "proper_event (evs ! i)" using proper by simp
      ultimately show False using not_before_self by blast
    qed
  qed
qed

lemma same_group_or_before:
  assumes "sorted_wrt (\<lambda>g h. \<forall>i \<in> set g. \<forall>j \<in> set h. before evs i j) gs"
      and "g \<in> set gs" and "h \<in> set gs" and "i \<in> set g" and "j \<in> set h"
  shows "g = h \<or> before evs i j \<or> before evs j i"
proof -
  from assms(2) obtain a where a: "a < length gs" "gs ! a = g" by (auto simp: in_set_conv_nth)
  from assms(3) obtain b where b: "b < length gs" "gs ! b = h" by (auto simp: in_set_conv_nth)
  consider "a = b" | "a < b" | "b < a" by linarith
  then show ?thesis
  proof cases
    case 1
    with a b show ?thesis by simp
  next
    case 2
    from sorted_wrt_nth_less [OF assms(1) 2 b(1)] a b assms(4,5) show ?thesis by blast
  next
    case 3
    from sorted_wrt_nth_less [OF assms(1) 3 a(1)] a b assms(4,5) show ?thesis by blast
  qed
qed

lemma length_sortedEvents: "length (sortedEvents events) = length events"
  by (simp add: sortedEvents_def length_sort_by)

lemma length_layoutEvents: "length (layoutEvents events) = length events"
  by (simp add: layoutEvents_def Let_def length_sortedEvents)

lemma layoutEvents_nth:
  assumes "i < length events"
  shows "layoutEvents events ! i
       = (sortedEvents events ! i)\<lparr>lane := lanes (assign_lanes (sortedEvents events)) i,
            laneCount := lane_counts (assign_lanes (sortedEvents events)) i\<rparr>"
  using assms by (auto simp: layoutEvents_def Let_def length_sortedEvents)


lemma layout_facts:
  assumes parses: "\<forall>b \<in> set events.
      timeToMinutes (startTime b) \<noteq> NaN \<and> timeToMinutes (endTime b) \<noteq> NaN"
  shows "layout_inv (sortedEvents events) (length events) (assign_lanes (sortedEvents events))"
    and "\<forall>e \<in> set (sortedEvents events). proper_event e"
proof -
  show p: "\<forall>e \<in> set (sortedEvents events). proper_event e"
    by (rule sortedEvents_proper [OF parses])
  from assign_lanes_inv [OF p sortedEvents_sorted [OF parses]]
  show "layout_inv (sortedEvents events) (length events) (assign_lanes (sortedEvents events))"
    by (simp add: length_sortedEvents)
qed

lemma overlaps_layoutEvents:
  assumes "i < length events" and "j < length events"
  shows "overlaps (layoutEvents events ! i) (layoutEvents events ! j)
       = overlaps (sortedEvents events ! i) (sortedEvents events ! j)"
  using assms by (simp add: layoutEvents_nth overlaps_def)

lemma lane_layoutEvents:
  assumes "i < length events"
  shows "lane (layoutEvents events ! i) = lanes (assign_lanes (sortedEvents events)) i"
    and "laneCount (layoutEvents events ! i) = lane_counts (assign_lanes (sortedEvents events)) i"
  using assms by (simp_all add: layoutEvents_nth)

lemma overlapping_share_group:
  assumes parses: "\<forall>b \<in> set events.
      timeToMinutes (startTime b) \<noteq> NaN \<and> timeToMinutes (endTime b) \<noteq> NaN"
      and i: "i < length events" and j: "j < length events"
      and ov: "overlaps (layoutEvents events ! i) (layoutEvents events ! j)"
  shows "\<exists>g \<in> set (layoutGroups events). i \<in> set g \<and> j \<in> set g"
proof -
  let ?evs = "sortedEvents events" and ?st = "assign_lanes (sortedEvents events)"
  from layout_facts(1) [OF parses]
  have I2: "\<forall>j < length events. \<exists>g \<in> set (groups ?st). j \<in> set g"
    and I3: "sorted_wrt (\<lambda>g h. \<forall>i \<in> set g. \<forall>j \<in> set h. before ?evs i j) (groups ?st)"
    by (simp_all add: layout_inv_def)
  from I2 i obtain g where g: "g \<in> set (groups ?st)" "i \<in> set g" by blast
  from I2 j obtain h where h: "h \<in> set (groups ?st)" "j \<in> set h" by blast
  from ov have ov': "overlaps (?evs ! i) (?evs ! j)"
    by (simp add: overlaps_layoutEvents [OF i j])
  from same_group_or_before [OF I3 g(1) h(1) g(2) h(2)] ov' before_not_overlaps
  have "g = h" by blast
  with g h show ?thesis by (auto simp: layoutGroups_def)
qed

lemma overlapping_lanes_differ:
  assumes parses: "\<forall>b \<in> set events.
      timeToMinutes (startTime b) \<noteq> NaN \<and> timeToMinutes (endTime b) \<noteq> NaN"
      and i: "i < length events" and j: "j < length events" and ij: "i \<noteq> j"
      and ov: "overlaps (layoutEvents events ! i) (layoutEvents events ! j)"
  shows "lane (layoutEvents events ! i) \<noteq> lane (layoutEvents events ! j)"
proof -
  let ?st = "assign_lanes (sortedEvents events)"
  from overlapping_share_group [OF parses i j ov]
  obtain g where g: "g \<in> set (groups ?st)" "i \<in> set g" "j \<in> set g"
    by (auto simp: layoutGroups_def)
  from layout_facts(1) [OF parses] g(1) have "inj_on (lanes ?st) (set g)"
    by (simp add: layout_inv_def)
  with g(2,3) ij have "lanes ?st i \<noteq> lanes ?st j" by (auto simp: inj_on_def)
  then show ?thesis by (simp add: lane_layoutEvents(1) [OF i] lane_layoutEvents(1) [OF j])
qed

lemma group_lane_count:
  assumes parses: "\<forall>b \<in> set events.
      timeToMinutes (startTime b) \<noteq> NaN \<and> timeToMinutes (endTime b) \<noteq> NaN"
      and g: "g \<in> set (layoutGroups events)" and i: "i \<in> set g"
  shows "i < length events"
    and "laneCount (layoutEvents events ! i)
       = 1 + Max ((\<lambda>j. lane (layoutEvents events ! j)) ` set g)"
proof -
  let ?evs = "sortedEvents events" and ?st = "assign_lanes (sortedEvents events)"
  note inv = layout_facts(1) [OF parses] and proper = layout_facts(2) [OF parses]
  from g have g': "g \<in> set (groups ?st)" by (simp add: layoutGroups_def)
  from inv g' have bound: "\<forall>j \<in> set g. j < length events"
    by (simp add: layout_inv_def)
  with i show len: "i < length events" by blast
  have inv': "layout_inv ?evs (length ?evs) ?st" using inv by (simp add: length_sortedEvents)
  have "lane_counts ?st i = Max (set (map (lanes ?st) g)) + 1"
    unfolding lane_counts_def
    by (rule lane_counts_group [OF groups_disjoint [OF inv' proper] g' i])
  moreover have "(\<lambda>j. lane (layoutEvents events ! j)) ` set g = lanes ?st ` set g"
    using bound by (intro image_cong) (simp_all add: lane_layoutEvents(1))
  ultimately show "laneCount (layoutEvents events ! i)
       = 1 + Max ((\<lambda>j. lane (layoutEvents events ! j)) ` set g)"
    by (simp add: lane_layoutEvents(2) [OF len])
qed

lemma every_event_grouped:
  assumes parses: "\<forall>b \<in> set events.
      timeToMinutes (startTime b) \<noteq> NaN \<and> timeToMinutes (endTime b) \<noteq> NaN"
      and "i < length events"
  shows "\<exists>g \<in> set (layoutGroups events). i \<in> set g"
  using layout_facts(1) [OF parses] assms(2) by (simp add: layout_inv_def layoutGroups_def)

lemma scenario_C_layout:
  "map (\<lambda>e. (event_id e, lane e, laneCount e)) (layoutEvents scenario_C_blocks)
     = [(''1'', 0, 3), (''2'', 1, 3), (''3'', 2, 3)]"
  by code_simp


lemma group_connected:
  assumes parses: "\<forall>b \<in> set events.
      timeToMinutes (startTime b) \<noteq> NaN \<and> timeToMinutes (endTime b) \<noteq> NaN"
      and g: "g \<in> set (layoutGroups events)" and m: "m < length g" "0 < m"
  shows "\<exists>m' < m. overlaps (layoutEvents events ! (g ! m)) (layoutEvents events ! (g ! m'))"
proof -
  let ?evs = "sortedEvents events" and ?st = "assign_lanes (sortedEvents events)"
  note inv = layout_facts(1) [OF parses]
  from g have g': "g \<in> set (groups ?st)" by (simp add: layoutGroups_def)
  from inv g' have bound: "\<forall>j \<in> set g. j < length events"
    by (simp add: layout_inv_def)
  from inv g' m obtain m' where m': "m' < m" "overlaps (?evs ! (g ! m)) (?evs ! (g ! m'))"
    unfolding layout_inv_def by blast
  from bound m m'(1) have "g ! m < length events" "g ! m' < length events" by simp_all
  with m' show ?thesis by (auto simp: overlaps_layoutEvents)
qed

lemma filter_insert_by:
  "length (filter P (insert_by cmp x ys)) = length (filter P (x # ys))"
  by (induction ys) auto

lemma filter_sort_by: "length (filter P (sort_by cmp xs)) = length (filter P xs)"
proof (induction xs)
  case Nil
  then show ?case by (simp add: sort_by_def)
next
  case (Cons x xs)
  have "sort_by cmp (x # xs) = insert_by cmp x (sort_by cmp xs)" by (simp add: sort_by_def)
  with Cons show ?case by (simp add: filter_insert_by)
qed

lemma originalBlock_toLayoutEvent: "originalBlock (toLayoutEvent b) = b"
  by (simp add: toLayoutEvent_def Let_def)

lemma map_originalBlock_layoutEvents:
  "map originalBlock (layoutEvents events) = map originalBlock (sortedEvents events)"
proof (cases "events = []")
  case True
  then show ?thesis by (simp add: layoutEvents_def sortedEvents_def sort_by_def)
next
  case False
  have "map originalBlock (layoutEvents events)
      = map (\<lambda>i. originalBlock (sortedEvents events ! i)) [0..<length (sortedEvents events)]"
    using False by (simp add: layoutEvents_def Let_def)
  also have "\<dots> = map originalBlock (map (\<lambda>i. sortedEvents events ! i) [0..<length (sortedEvents events)])"
    by simp
  also have "\<dots> = map originalBlock (sortedEvents events)"
    by (simp only: map_nth)
  finally show ?thesis .
qed

lemma count_list_filter: "count_list xs y = length (filter (\<lambda>x. x = y) xs)"
  by (induction xs) auto

lemma layoutEvents_blocks:
  "count_list (map originalBlock (layoutEvents events)) b = count_list events b"
proof -
  have "count_list (map originalBlock (layoutEvents events)) b
      = length (filter (\<lambda>e. originalBlock e = b) (sortedEvents events))"
    by (simp add: map_originalBlock_layoutEvents count_list_filter filter_map comp_def)
  also have "\<dots> = length (filter (\<lambda>e. originalBlock e = b) (map toLayoutEvent events))"
    by (simp add: sortedEvents_def filter_sort_by)
  also have "\<dots> = count_list events b"
    by (simp add: count_list_filter filter_map comp_def originalBlock_toLayoutEvent)
  finally show ?thesis .
qed

lemma toLayoutEvent_interval:
  assumes "timeToMinutes (startTime b) = Finite s" and "timeToMinutes (endTime b) = Finite t"
  shows "start (toLayoutEvent b) = Finite s"
    and "end' (toLayoutEvent b) = Finite (max (s + 5) (if t < s then t + 1440 else t))"
  using assms by (auto simp: toLayoutEvent_def Let_def)

lemma layoutEvents_interval:
  assumes wf: "\<forall>b \<in> set events. is_HHMM (startTime b) \<and> is_HHMM (endTime b)"
      and i: "i < length (layoutEvents events)"
  shows "\<exists>s t. timeToMinutes (startTime (originalBlock (layoutEvents events ! i))) = Finite s
            \<and> timeToMinutes (endTime (originalBlock (layoutEvents events ! i))) = Finite t
            \<and> start (layoutEvents events ! i) = Finite s
            \<and> end' (layoutEvents events ! i) = Finite (max (s + 5) (if t < s then t + 1440 else t))"
proof -
  from i have i': "i < length events" by (simp add: length_layoutEvents)
  then have "sortedEvents events ! i \<in> set (sortedEvents events)"
    by (simp add: length_sortedEvents)
  then obtain b where b: "b \<in> set events" and e: "sortedEvents events ! i = toLayoutEvent b"
    by (auto simp: sortedEvents_def set_sort_by)
  from wf b obtain s t where st: "timeToMinutes (startTime b) = Finite s"
    "timeToMinutes (endTime b) = Finite t"
    using timeToMinutes_HHMM by blast
  have le: "layoutEvents events ! i
      = (toLayoutEvent b)\<lparr>lane := lanes (assign_lanes (sortedEvents events)) i,
           laneCount := lane_counts (assign_lanes (sortedEvents events)) i\<rparr>"
    using layoutEvents_nth [OF i'] e by simp
  show ?thesis
    using st toLayoutEvent_interval [OF st]
    by (simp add: le originalBlock_toLayoutEvent)
qed

lemma overlaps_proper:
  assumes "proper_event a" and "proper_event b"
  shows "overlaps a b = (js_lt (start a) (end' b) \<and> js_lt (start b) (end' a))"
proof -
  from assms(1) obtain s t where a: "start a = Finite s" "end' a = Finite t" by (rule proper_cases)
  from assms(2) obtain s' t' where b: "start b = Finite s'" "end' b = Finite t'" by (rule proper_cases)
  show ?thesis by (auto simp: overlaps_def a b)
qed

lemma HHMM_blocks_parse:
  assumes "\<forall>b \<in> set events. is_HHMM (startTime b) \<and> is_HHMM (endTime b)"
  shows "\<forall>b \<in> set events.
      timeToMinutes (startTime b) \<noteq> NaN \<and> timeToMinutes (endTime b) \<noteq> NaN"
  using assms by (simp add: HHMM_parses)

lemma proper_layoutEvents:
  assumes parses: "\<forall>b \<in> set events.
      timeToMinutes (startTime b) \<noteq> NaN \<and> timeToMinutes (endTime b) \<noteq> NaN"
      and i: "i < length events"
  shows "proper_event (layoutEvents events ! i)"
proof -
  from i have "sortedEvents events ! i \<in> set (sortedEvents events)"
    by (simp add: length_sortedEvents)
  with layout_facts(2) [OF parses] have "proper_event (sortedEvents events ! i)" by blast
  then show ?thesis by (simp add: layoutEvents_nth [OF i] proper_event_def)
qed

lemma intersecting_iff_overlaps:
  assumes parses: "\<forall>b \<in> set events.
      timeToMinutes (startTime b) \<noteq> NaN \<and> timeToMinutes (endTime b) \<noteq> NaN"
      and i: "i < length events" and j: "j < length events"
  shows "(js_lt (start (layoutEvents events ! i)) (end' (layoutEvents events ! j))
          \<and> js_lt (start (layoutEvents events ! j)) (end' (layoutEvents events ! i)))
       = overlaps (layoutEvents events ! i) (layoutEvents events ! j)"
  by (rule overlaps_proper [symmetric])
     (rule proper_layoutEvents [OF parses i], rule proper_layoutEvents [OF parses j])

text \<open>
  Claim C4, as amended. For every block list whose start and end times are well-formed
  \<open>HH:MM\<close> strings, the result of \<open>layoutEvents\<close> holds one event for each block, and
  the interval of an event is that of its block: it starts at the block's start and ends
  at the block's end, taken on the next day when the end lies before the start, and
  stretched to 5 minutes when shorter. Two different events whose intervals intersect have
  different lanes and lie in the same group; every event lies in a group; within a group
  every member but the first intersects a member that joined before it, so a group is a
  set of events connected by overlaps; and every event of a group has \<open>laneCount\<close> equal
  to one plus the largest lane in the group. For the blocks 09:00 to 11:00, 10:00 to 10:30
  and 10:15 to 10:45 the lanes are 0, 1 and 2, and \<open>laneCount\<close> is 3 for each.
\<close>

theorem lane_non_collision:
  assumes "\<forall>b \<in> set events. is_HHMM (startTime b) \<and> is_HHMM (endTime b)"
  shows "length (layoutEvents events) = length events
       \<and> (\<forall>b. count_list (map originalBlock (layoutEvents events)) b = count_list events b)
       \<and> (\<forall>i < length (layoutEvents events).
            \<exists>s t. timeToMinutes (startTime (originalBlock (layoutEvents events ! i))) = Finite s
                \<and> timeToMinutes (endTime (originalBlock (layoutEvents events ! i))) = Finite t
                \<and> start (layoutEvents events ! i) = Finite s
                \<and> end' (layoutEvents events ! i)
                    = Finite (max (s + 5) (if t < s then t + 1440 else t)))
       \<and> (\<forall>i j. i < length (layoutEvents events) \<and> j < length (layoutEvents events) \<and> i \<noteq> j
            \<and> js_lt (start (layoutEvents events ! i)) (end' (layoutEvents events ! j))
            \<and> js_lt (start (layoutEvents events ! j)) (end' (layoutEvents events ! i))
          \<longrightarrow> lane (layoutEvents events ! i) \<noteq> lane (layoutEvents events ! j)
              \<and> (\<exists>g \<in> set (layoutGroups events). i \<in> set g \<and> j \<in> set g))
       \<and> (\<forall>i < length (layoutEvents events). \<exists>g \<in> set (layoutGroups events). i \<in> set g)
       \<and> (\<forall>g \<in> set (layoutGroups events).
            (\<forall>m < length g. 0 < m \<longrightarrow>
               (\<exists>m' < m.
                  js_lt (start (layoutEvents events ! (g ! m))) (end' (layoutEvents events ! (g ! m')))
                  \<and> js_lt (start (layoutEvents events ! (g ! m')))
                          (end' (layoutEvents events ! (g ! m)))))
            \<and> (\<forall>i \<in> set g. i < length (layoutEvents events)
                 \<and> laneCount (layoutEvents events ! i)
                     = 1 + Max ((\<lambda>j. lane (layoutEvents events ! j)) ` set g)))
       \<and> map (\<lambda>e. (event_id e, lane e, laneCount e)) (layoutEvents scenario_C_blocks)
           = [(''1'', 0, 3), (''2'', 1, 3), (''3'', 2, 3)]"
proof (intro conjI)
  note parses = HHMM_blocks_parse [OF assms]
  show "length (layoutEvents events) = length events" by (rule length_layoutEvents)
  show "\<forall>b. count_list (map originalBlock (layoutEvents events)) b = count_list events b"
    by (simp add: layoutEvents_blocks)
  show "\<forall>i < length (layoutEvents events).
            \<exists>s t. timeToMinutes (startTime (originalBlock (layoutEvents events ! i))) = Finite s
                \<and> timeToMinutes (endTime (originalBlock (layoutEvents events ! i))) = Finite t
                \<and> start (layoutEvents events ! i) = Finite s
                \<and> end' (layoutEvents events ! i)
                    = Finite (max (s + 5) (if t < s then t + 1440 else t))"
    using layoutEvents_interval [OF assms] by blast
  show "\<forall>i j. i < length (layoutEvents events) \<and> j < length (layoutEvents events) \<and> i \<noteq> j
            \<and> js_lt (start (layoutEvents events ! i)) (end' (layoutEvents events ! j))
            \<and> js_lt (start (layoutEvents events ! j)) (end' (layoutEvents events ! i))
          \<longrightarrow> lane (layoutEvents events ! i) \<noteq> lane (layoutEvents events ! j)
              \<and> (\<exists>g \<in> set (layoutGroups events). i \<in> set g \<and> j \<in> set g)"
  proof (intro allI impI)
    fix i j
    assume a: "i < length (layoutEvents events) \<and> j < length (layoutEvents events) \<and> i \<noteq> j
            \<and> js_lt (start (layoutEvents events ! i)) (end' (layoutEvents events ! j))
            \<and> js_lt (start (layoutEvents events ! j)) (end' (layoutEvents events ! i))"
    then have i: "i < length events" and j: "j < length events" and ij: "i \<noteq> j"
      by (simp_all add: length_layoutEvents)
    from a have ov: "overlaps (layoutEvents events ! i) (layoutEvents events ! j)"
      by (simp add: intersecting_iff_overlaps [OF parses i j])
    show "lane (layoutEvents events ! i) \<noteq> lane (layoutEvents events ! j)
              \<and> (\<exists>g \<in> set (layoutGroups events). i \<in> set g \<and> j \<in> set g)"
      using overlapping_lanes_differ [OF parses i j ij ov] overlapping_share_group [OF parses i j ov]
      by (rule conjI)
  qed
  show "\<forall>i < length (layoutEvents events). \<exists>g \<in> set (layoutGroups events). i \<in> set g"
    using every_event_grouped [OF parses] by (simp add: length_layoutEvents)
  show "\<forall>g \<in> set (layoutGroups events).
            (\<forall>m < length g. 0 < m \<longrightarrow>
               (\<exists>m' < m.
                  js_lt (start (layoutEvents events ! (g ! m))) (end' (layoutEvents events ! (g ! m')))
                  \<and> js_lt (start (layoutEvents events ! (g ! m')))
                          (end' (layoutEvents events ! (g ! m)))))
            \<and> (\<forall>i \<in> set g. i < length (layoutEvents events)
                 \<and> laneCount (layoutEvents events ! i)
                     = 1 + Max ((\<lambda>j. lane (layoutEvents events ! j)) ` set g))"
  proof (intro ballI conjI allI impI)
    fix g m
    assume g: "g \<in> set (layoutGroups events)" and m: "m < length g" "0 < m"
    from group_connected [OF parses g m] obtain m' where m': "m' < m"
      "overlaps (layoutEvents events ! (g ! m)) (layoutEvents events ! (g ! m'))" by blast
    from m m' have "g ! m \<in> set g" "g ! m' \<in> set g" by simp_all
    then have b: "g ! m < length events" "g ! m' < length events"
      using group_lane_count(1) [OF parses g] by blast+
    from m'(2) have "js_lt (start (layoutEvents events ! (g ! m))) (end' (layoutEvents events ! (g ! m')))
        \<and> js_lt (start (layoutEvents events ! (g ! m'))) (end' (layoutEvents events ! (g ! m)))"
      by (simp add: intersecting_iff_overlaps [OF parses b])
    with m'(1) show "\<exists>m' < m.
        js_lt (start (layoutEvents events ! (g ! m))) (end' (layoutEvents events ! (g ! m')))
        \<and> js_lt (start (layoutEvents events ! (g ! m'))) (end' (layoutEvents events ! (g ! m)))"
      by blast
  next
    fix g i
    assume g: "g \<in> set (layoutGroups events)" and i: "i \<in> set g"
    show "i < length (layoutEvents events)"
      using group_lane_count(1) [OF parses g i] by (simp add: length_layoutEvents)
    show "laneCount (layoutEvents events ! i)
        = 1 + Max ((\<lambda>j. lane (layoutEvents events ! j)) ` set g)"
      by (rule group_lane_count(2) [OF parses g i])
  qed
  show "map (\<lambda>e. (event_id e, lane e, laneCount e)) (layoutEvents scenario_C_blocks)
           = [(''1'', 0, 3), (''2'', 1, 3), (''3'', 2, 3)]"
    by (rule scenario_C_layout)
qed

lemma scenario_C_groups: "layoutGroups scenario_C_blocks = [[0, 1, 2]]"
  by code_simp

lemma scenario_C_well_formed:
  "\<forall>b \<in> set scenario_C_blocks. is_HHMM (startTime b) \<and> is_HHMM (endTime b)"
  by code_simp

lemma scenario_C_intervals:
  "map (\<lambda>e. (startTime (originalBlock e), endTime (originalBlock e), start e, end' e))
       (layoutEvents scenario_C_blocks)
     = [(''09:00'', ''11:00'', Finite 540, Finite 660),
        (''10:00'', ''10:30'', Finite 600, Finite 630),
        (''10:15'', ''10:45'', Finite 615, Finite 645)]"
  by code_simp

theorem lane_non_collision_witness:
  "list_all (\<lambda>b. is_HHMM (startTime b) \<and> is_HHMM (endTime b)) scenario_C_blocks
   \<and> map (\<lambda>e. (startTime (originalBlock e), endTime (originalBlock e), start e, end' e))
       (layoutEvents scenario_C_blocks)
     = [(''09:00'', ''11:00'', Finite 540, Finite 660),
        (''10:00'', ''10:30'', Finite 600, Finite 630),
        (''10:15'', ''10:45'', Finite 615, Finite 645)]
   \<and> js_lt (start (layoutEvents scenario_C_blocks ! 0)) (end' (layoutEvents scenario_C_blocks ! 1))
   \<and> js_lt (start (layoutEvents scenario_C_blocks ! 1)) (end' (layoutEvents scenario_C_blocks ! 0))
   \<and> lane (layoutEvents scenario_C_blocks ! 0) \<noteq> lane (layoutEvents scenario_C_blocks ! 1)
   \<and> [0, 1, 2] \<in> set (layoutGroups scenario_C_blocks)
   \<and> laneCount (layoutEvents scenario_C_blocks ! 1)
       = 1 + Max ((\<lambda>j. lane (layoutEvents scenario_C_blocks ! j)) ` set [0, 1, 2])"
proof -
  have wf: "list_all (\<lambda>b. is_HHMM (startTime b) \<and> is_HHMM (endTime b)) scenario_C_blocks"
    using scenario_C_well_formed by (simp add: list_all_iff)
  have len: "length (layoutEvents scenario_C_blocks) = 3"
    by (simp add: length_layoutEvents scenario_C_blocks_def)
  have g: "[0, 1, 2] \<in> set (layoutGroups scenario_C_blocks)"
    by (simp add: scenario_C_groups)
  have ov: "js_lt (start (layoutEvents scenario_C_blocks ! 0)) (end' (layoutEvents scenario_C_blocks ! 1))"
    "js_lt (start (layoutEvents scenario_C_blocks ! 1)) (end' (layoutEvents scenario_C_blocks ! 0))"
    by code_simp+
  from lane_non_collision [OF scenario_C_well_formed]
  have a: "\<forall>i j. i < length (layoutEvents scenario_C_blocks)
            \<and> j < length (layoutEvents scenario_C_blocks) \<and> i \<noteq> j
            \<and> js_lt (start (layoutEvents scenario_C_blocks ! i)) (end' (layoutEvents scenario_C_blocks ! j))
            \<and> js_lt (start (layoutEvents scenario_C_blocks ! j)) (end' (layoutEvents scenario_C_blocks ! i))
          \<longrightarrow> lane (layoutEvents scenario_C_blocks ! i) \<noteq> lane (layoutEvents scenario_C_blocks ! j)
              \<and> (\<exists>g \<in> set (layoutGroups scenario_C_blocks). i \<in> set g \<and> j \<in> set g)"
    and c: "\<forall>g \<in> set (layoutGroups scenario_C_blocks).
            (\<forall>i \<in> set g. i < length (layoutEvents scenario_C_blocks)
                 \<and> laneCount (layoutEvents scenario_C_blocks ! i)
                     = 1 + Max ((\<lambda>j. lane (layoutEvents scenario_C_blocks ! j)) ` set g))"
    by blast+
  from a [rule_format, of 0 1] ov len
  have l: "lane (layoutEvents scenario_C_blocks ! 0) \<noteq> lane (layoutEvents scenario_C_blocks ! 1)"
    by simp
  from c [rule_format, OF g] have
    "laneCount (layoutEvents scenario_C_blocks ! 1)
       = 1 + Max ((\<lambda>j. lane (layoutEvents scenario_C_blocks ! j)) ` set [0, 1, 2])"
    by simp
  with l g ov wf scenario_C_intervals show ?thesis by simp
qed

text \<open>
  Claim C4 as stated fails for block lists with a start time that does not parse. The
  fourth block of \<open>collision_blocks\<close> starts at \<open>early\<close>, which \<open>timeToMinutes\<close> reads
  as \<open>NaN\<close>. Every comparison with that event is \<open>NaN\<close>, so no element of the array
  compares as smaller than the one in front of it and the sort leaves the array as it is,
  with the workshop from 09:30 behind the call from 11:10. The call holds lane 1 in the
  group of the review; the workshop then joins the group of the stand-up, where lane 1
  is the first free one. The call (11:10 to 12:00) and the workshop (09:30 to 11:30)
  intersect and share lane 1.
\<close>

theorem lane_collision_counterexample:
  "timeToMinutes (startTime (collision_blocks ! 3)) = NaN
   \<and> list_all (\<lambda>b. is_HHMM (startTime b) \<and> is_HHMM (endTime b))
        [collision_blocks ! 0, collision_blocks ! 1, collision_blocks ! 2, collision_blocks ! 4]
   \<and> is_HHMM (endTime (collision_blocks ! 3))
   \<and> \<not> js_lt (compareEvents (toLayoutEvent (collision_blocks ! 1)) (toLayoutEvent (collision_blocks ! 0)))
            (Finite 0)
   \<and> \<not> js_lt (compareEvents (toLayoutEvent (collision_blocks ! 2)) (toLayoutEvent (collision_blocks ! 1)))
            (Finite 0)
   \<and> \<not> js_lt (compareEvents (toLayoutEvent (collision_blocks ! 3)) (toLayoutEvent (collision_blocks ! 2)))
            (Finite 0)
   \<and> \<not> js_lt (compareEvents (toLayoutEvent (collision_blocks ! 4)) (toLayoutEvent (collision_blocks ! 3)))
            (Finite 0)
   \<and> map (\<lambda>e. (event_id e, startTime (originalBlock e), endTime (originalBlock e), lane e, laneCount e))
        (layoutEvents collision_blocks)
       = [(''1'', ''09:00'', ''10:00'', 0, 2), (''2'', ''11:00'', ''12:00'', 0, 2),
          (''3'', ''11:10'', ''12:00'', 1, 2), (''4'', ''early'', ''08:00'', 0, 1),
          (''5'', ''09:30'', ''11:30'', 1, 2)]
   \<and> start (layoutEvents collision_blocks ! 2) = Finite 670
   \<and> end' (layoutEvents collision_blocks ! 2) = Finite 720
   \<and> start (layoutEvents collision_blocks ! 4) = Finite 570
   \<and> end' (layoutEvents collision_blocks ! 4) = Finite 690
   \<and> js_lt (start (layoutEvents collision_blocks ! 2)) (end' (layoutEvents collision_blocks ! 4))
   \<and> js_lt (start (layoutEvents collision_blocks ! 4)) (end' (layoutEvents collision_blocks ! 2))
   \<and> lane (layoutEvents collision_blocks ! 2) = lane (layoutEvents collision_blocks ! 4)"
  by code_simp

end
